theory Spec2Isabelle
  imports Complex_Main
begin

section \<open>JavaScript values shared by the services\<close>

text \<open>
  A thrown value is an \<open>Error\<close> object carrying its message. Template literals such as
  \<^verbatim>\<open>`${error}`\<close> render it through \<open>Error.prototype.toString\<close>.
  Strings are lists of one-byte characters; timestamps are milliseconds as \<open>int\<close>,
  durations are milliseconds as \<open>nat\<close>.
\<close>

datatype js_error = Error (message: string)

definition error_to_string :: "js_error \<Rightarrow> string" where
  "error_to_string e = (if message e = [] then ''Error'' else ''Error: '' @ message e)"

definition newline :: char where
  "newline = CHR 0x0A"

text \<open>\<open>String.prototype.startsWith\<close>, \<open>endsWith\<close> and \<open>includes\<close>.\<close>

fun startsWith :: "string \<Rightarrow> string \<Rightarrow> bool" where
  "startsWith s [] = True"
| "startsWith [] (p # ps) = False"
| "startsWith (c # cs) (p # ps) = (c = p \<and> startsWith cs ps)"

definition endsWith :: "string \<Rightarrow> string \<Rightarrow> bool" where
  "endsWith s suffix = startsWith (rev s) (rev suffix)"

fun includes_str :: "string \<Rightarrow> string \<Rightarrow> bool" where
  "includes_str [] sub = (sub = [])"
| "includes_str (c # cs) sub = (startsWith (c # cs) sub \<or> includes_str cs sub)"

text \<open>The white space of \<open>\s\<close> and of \<open>trim\<close>, among one-byte characters.\<close>

definition is_space :: "char \<Rightarrow> bool" where
  "is_space c = (c \<in> {CHR 0x09, CHR 0x0A, CHR 0x0B, CHR 0x0C, CHR 0x0D, CHR 0x20, CHR 0xA0})"

definition trim :: "string \<Rightarrow> string" where
  "trim s = rev (dropWhile is_space (rev (dropWhile is_space s)))"

text \<open>
  \<^verbatim>\<open>s.split(/\s+/)\<close>: the pieces between maximal runs of white space, empty pieces at
  the ends included; \<open>wordCount\<close> is
  \<^verbatim>\<open>s.split(/\s+/).filter(word => word.length > 0).length\<close>.
\<close>

function split_ws :: "string \<Rightarrow> string \<Rightarrow> string list" where
  "split_ws cur [] = [cur]"
| "split_ws cur (c # cs) =
     (if is_space c then cur # split_ws [] (dropWhile is_space cs)
      else split_ws (cur @ [c]) cs)"
  by pat_completeness auto
termination
  by (relation "measure (\<lambda>(cur, s). length s)")
     (auto simp: le_imp_less_Suc length_dropWhile_le)

definition wordCount_of :: "string \<Rightarrow> nat" where
  "wordCount_of s = length (filter (\<lambda>word. length word > 0) (split_ws [] s))"

text \<open>Decimal rendering of a number inside a template literal.\<close>

definition digit_char :: "nat \<Rightarrow> char" where
  "digit_char d = ''0123456789'' ! d"

function show_nat :: "nat \<Rightarrow> string" where
  "show_nat n = (if n < 10 then [digit_char n] else show_nat (n div 10) @ [digit_char (n mod 10)])"
  by pat_completeness auto
termination
  by (relation "measure id") auto

declare show_nat.simps [simp del]

section \<open>SmartOCRService: the OCR arbiter\<close>

datatype ocr_source = Mistral | Online | Offline

datatype ocr_mode = ModeOnline | ModeOffline | ModeAuto

record OCRResult =
  ocr_text :: string
  source :: ocr_source
  confidence :: rat
  processingTime :: int
  fallbackUsed :: bool

text \<open>
  What \<open>TextRecognition.recognize\<close> hands back: the text (\<open>result.text || ''\<close>) and, for
  each block, its \<open>confidence\<close> property, \<open>None\<close> when the block has none.
\<close>

record recognition =
  rec_text :: string
  rec_blocks :: "rat option list"

text \<open>What \<open>OfflineOCRService.extractTextFromImage\<close> hands back (text blocks left out).\<close>

record OfflineOCRResult =
  off_text :: string
  off_confidence :: rat
  off_processingTime :: int

text \<open>The static fields of the class.\<close>

record SmartOCRService =
  consecutiveFailures :: nat
  isTemporarilyOffline :: bool
  offlineUntil :: int

definition MAX_CONSECUTIVE_FAILURES :: nat where
  "MAX_CONSECUTIVE_FAILURES = 2"

definition OFFLINE_COOLDOWN :: int where
  "OFFLINE_COOLDOWN = 5 * 60 * 1000"

definition initial_service :: SmartOCRService where
  "initial_service = \<lparr>consecutiveFailures = 0, isTemporarilyOffline = False, offlineUntil = 0\<rparr>"

text \<open>
  One call of the arbiter meets the world as it is for that image at that moment: what
  \<open>MistralOCRService.extractTextFromImage\<close> would return or throw if awaited, what
  \<open>FileSystem.getInfoAsync\<close> (the \<open>exists\<close> flag) and \<open>TextRecognition.recognize\<close> would
  return or throw inside the local provider, and how long each provider takes. A provider
  that is not awaited leaves no trace.
\<close>

record ocr_env =
  imageUri :: string
  mistral_outcome :: "js_error + string"
  mistral_ms :: nat
  fileInfo :: "js_error + bool"
  recognize :: "js_error + recognition"
  device_ms :: nat

subsection \<open>OfflineOCRService: the local provider\<close>

text \<open>\<^verbatim>\<open>(block as any).confidence || 0.5\<close> and \<open>calculateOverallConfidence\<close>.\<close>

definition block_confidence :: "rat option \<Rightarrow> rat" where
  "block_confidence c = (case c of None \<Rightarrow> 1 / 2 | Some v \<Rightarrow> if v = 0 then 1 / 2 else v)"

definition calculateOverallConfidence :: "rat list \<Rightarrow> rat" where
  "calculateOverallConfidence blocks =
     (if length blocks = 0 then 1 / 2 else sum_list blocks / of_nat (length blocks))"

text \<open>
  The \<open>try\<close> block of \<open>OfflineOCRService.extractTextFromImage\<close>: the result it returns or
  the error it throws. (\<open>initialize\<close> only sets a flag and returns \<open>true\<close>.)
\<close>

definition recognizeOnDevice :: "ocr_env \<Rightarrow> js_error + OfflineOCRResult" where
  "recognizeOnDevice env =
     (case fileInfo env of
        Inl error \<Rightarrow> Inl error
      | Inr found \<Rightarrow>
          if \<not> found then Inl (Error (''Image file not found: '' @ imageUri env))
          else
            (case recognize env of
               Inl error \<Rightarrow> Inl error
             | Inr result \<Rightarrow>
                 Inr \<lparr>off_text = rec_text result,
                      off_confidence =
                        calculateOverallConfidence (map block_confidence (rec_blocks result)),
                      off_processingTime = int (device_ms env)\<rparr>))"

text \<open>
  The whole body is inside \<open>try\<close>; the \<open>catch\<close> returns an empty result instead of
  throwing, so the function returns on every input.
\<close>

definition Offline_extractTextFromImage :: "ocr_env \<Rightarrow> OfflineOCRResult" where
  "Offline_extractTextFromImage env =
     (case recognizeOnDevice env of
        Inr result \<Rightarrow> result
      | Inl error \<Rightarrow>
          \<lparr>off_text = [], off_confidence = 0, off_processingTime = int (device_ms env)\<rparr>)"

subsection \<open>One call of the arbiter\<close>

datatype provider = RemoteProvider | LocalProvider

text \<open>
  The outcome of one call: the value returned or the error thrown, the static fields
  afterwards, the providers awaited in order, and the clock when the call settles.
  \<open>now\<close> is \<open>Date.now()\<close> when the call starts; the statements before the first
  \<open>await\<close> run at that instant, and the clock moves on by the time a provider takes.
\<close>

record arbiter_step =
  returned :: "js_error + OCRResult"
  service :: SmartOCRService
  called :: "provider list"
  settled :: int

definition performOnlineOCR :: "ocr_env \<Rightarrow> int \<Rightarrow> int \<Rightarrow> js_error + OCRResult" where
  "performOnlineOCR env now startTime =
     (case mistral_outcome env of
        Inr t \<Rightarrow> Inr \<lparr>ocr_text = t, source = Mistral, confidence = 9 / 10,
                      processingTime = now + int (mistral_ms env) - startTime,
                      fallbackUsed = False\<rparr>
      | Inl error \<Rightarrow> Inl error)"

text \<open>
  \<open>performOfflineOCR\<close> awaits the local provider and wraps its result. Its promise can
  reject only if the local provider's does.
\<close>

definition performOfflineOCR :: "ocr_env \<Rightarrow> int \<Rightarrow> int \<Rightarrow> bool \<Rightarrow> js_error + OCRResult" where
  "performOfflineOCR env now startTime fallback =
     (let result = Offline_extractTextFromImage env in
      Inr \<lparr>ocr_text = off_text result, source = Offline,
           confidence = off_confidence result,
           processingTime = now + int (device_ms env) - startTime,
           fallbackUsed = fallback\<rparr>)"

definition both_failed_text :: "js_error \<Rightarrow> js_error \<Rightarrow> string" where
  "both_failed_text error offlineError =
     ''OCR processing failed for this image.'' @ [newline, newline] @
     ''Online Error: '' @ error_to_string error @ [newline] @
     ''Offline Error: '' @ error_to_string offlineError @ [newline, newline] @
     ''Suggestions:'' @ [newline] @
     ''1. Check your internet connection and API keys'' @ [newline] @
     ''2. Ensure the image is clear and contains readable text'' @ [newline] @
     ''3. Try again in a few minutes''"

definition extractTextFromImage ::
  "ocr_mode \<Rightarrow> ocr_env \<Rightarrow> int \<Rightarrow> SmartOCRService \<Rightarrow> arbiter_step" where
  "extractTextFromImage preferredMode env now s =
     (let startTime = now in
      if isTemporarilyOffline s \<and> now < offlineUntil s then
        \<lparr>returned = performOfflineOCR env now startTime True, service = s,
         called = [LocalProvider], settled = now + int (device_ms env)\<rparr>
      else
        let s1 = (if isTemporarilyOffline s \<and> now \<ge> offlineUntil s
                  then s\<lparr>isTemporarilyOffline := False, consecutiveFailures := 0\<rparr> else s)
        in
        if preferredMode = ModeOffline then
          \<lparr>returned = performOfflineOCR env now startTime False, service = s1,
           called = [LocalProvider], settled = now + int (device_ms env)\<rparr>
        else if preferredMode = ModeOnline then
          \<lparr>returned = performOnlineOCR env now startTime, service = s1,
           called = [RemoteProvider], settled = now + int (mistral_ms env)\<rparr>
        else
          (case performOnlineOCR env now startTime of
             Inr result \<Rightarrow>
               \<lparr>returned = Inr result, service = s1\<lparr>consecutiveFailures := 0\<rparr>,
                called = [RemoteProvider], settled = now + int (mistral_ms env)\<rparr>
           | Inl error \<Rightarrow>
               let failedAt = now + int (mistral_ms env);
                   s2 = s1\<lparr>consecutiveFailures := consecutiveFailures s1 + 1\<rparr>;
                   s3 = (if consecutiveFailures s2 \<ge> MAX_CONSECUTIVE_FAILURES
                         then s2\<lparr>isTemporarilyOffline := True,
                                 offlineUntil := failedAt + OFFLINE_COOLDOWN\<rparr>
                         else s2);
                   finishedAt = failedAt + int (device_ms env)
               in
               (case performOfflineOCR env failedAt startTime True of
                  Inr result \<Rightarrow>
                    \<lparr>returned = Inr result, service = s3,
                     called = [RemoteProvider, LocalProvider], settled = finishedAt\<rparr>
                | Inl offlineError \<Rightarrow>
                    \<lparr>returned = Inr \<lparr>ocr_text = both_failed_text error offlineError,
                                      source = Offline, confidence = 0,
                                      processingTime = finishedAt - startTime,
                                      fallbackUsed = True\<rparr>,
                     service = s3,
                     called = [RemoteProvider, LocalProvider], settled = finishedAt\<rparr>)))"

definition resetFailureTracking :: "SmartOCRService \<Rightarrow> SmartOCRService" where
  "resetFailureTracking s =
     s\<lparr>consecutiveFailures := 0, isTemporarilyOffline := False, offlineUntil := 0\<rparr>"

definition forceOfflineMode :: "int \<Rightarrow> int \<Rightarrow> SmartOCRService \<Rightarrow> SmartOCRService" where
  "forceOfflineMode durationMs now s =
     s\<lparr>isTemporarilyOffline := True, offlineUntil := now + durationMs\<rparr>"

text \<open>
  A sequence of calls, each at its own wall-clock time, run on the static fields the
  previous call left.
\<close>

fun run_calls ::
  "(ocr_mode \<times> ocr_env \<times> int) list \<Rightarrow> SmartOCRService \<Rightarrow> arbiter_step list" where
  "run_calls [] s = []"
| "run_calls ((m, env, now) # rest) s =
     (let step = extractTextFromImage m env now s in step # run_calls rest (service step))"

definition service_after :: "arbiter_step list \<Rightarrow> SmartOCRService \<Rightarrow> SmartOCRService" where
  "service_after steps s = (if steps = [] then s else service (last steps))"


subsection \<open>Batch entry point\<close>

text \<open>
  \<open>extractTextFromImages\<close> walks the image list with the loop index \<open>i\<close>. Every image
  comes with the world its arbiter call meets and with what the call of the optional
  \<open>onProgress\<close> callback for it does: \<open>None\<close> when no callback was passed or the call
  returns, \<open>Some e\<close> when the callback throws \<open>e\<close>. The callback is called inside the
  \<open>try\<close> block, after the result has been pushed, so what it throws reaches the \<open>catch\<close>
  of the loop like an error of the arbiter.
\<close>

record image_env =
  providers :: ocr_env
  image_progress :: "js_error option"

record smart_batch =
  results :: "OCRResult list"
  batch_service :: SmartOCRService
  batch_clock :: int

definition failed_image_result :: "nat \<Rightarrow> js_error \<Rightarrow> OCRResult" where
  "failed_image_result i error =
     \<lparr>ocr_text = ''Failed to process image '' @ show_nat (i + 1) @ '': '' @ error_to_string error,
      source = Offline, confidence = 0, processingTime = 0, fallbackUsed = True\<rparr>"

fun images_loop :: "ocr_mode \<Rightarrow> nat \<Rightarrow> nat \<Rightarrow> image_env list \<Rightarrow> smart_batch \<Rightarrow> smart_batch" where
  "images_loop preferredMode n i [] b = b"
| "images_loop preferredMode n i (env # rest) b =
     (let step = extractTextFromImage preferredMode (providers env) (batch_clock b)
                   (batch_service b)
      in
      case returned step of
        Inr result \<Rightarrow>
          (case image_progress env of
             None \<Rightarrow>
               images_loop preferredMode n (i + 1) rest
                 \<lparr>results = results b @ [result], batch_service = service step,
                  batch_clock = settled step +
                    (if int i < int n - 1
                     then (if source result = Offline then 500 else 2000) else 0)\<rparr>
           | Some error \<Rightarrow>
               images_loop preferredMode n (i + 1) rest
                 \<lparr>results = results b @ [result, failed_image_result i error],
                  batch_service = service step, batch_clock = settled step\<rparr>)
      | Inl error \<Rightarrow>
          images_loop preferredMode n (i + 1) rest
            \<lparr>results = results b @ [failed_image_result i error],
             batch_service = service step, batch_clock = settled step\<rparr>)"

definition extractTextFromImages ::
  "image_env list \<Rightarrow> ocr_mode \<Rightarrow> int \<Rightarrow> SmartOCRService \<Rightarrow> smart_batch" where
  "extractTextFromImages images preferredMode now s =
     images_loop preferredMode (length images) 0 images
       \<lparr>results = [], batch_service = s, batch_clock = now\<rparr>"

section \<open>MistralOCRService: the remote provider\<close>

definition MAX_RETRIES :: nat where
  "MAX_RETRIES = 3"

definition BASE_DELAY :: nat where
  "BASE_DELAY = 2000"

text \<open>
  The HTTP exchange of one \<open>performOCR\<close> call. \<open>response.ok\<close> is a status in 200..299.
  \<open>errorText\<close> is what \<^verbatim>\<open>response.text().catch(...)\<close> yields, \<open>content\<close> is
  \<^verbatim>\<open>data.choices[0]?.message?.content || ''\<close> or the error of parsing the body.
  \<open>enforceRateLimit\<close> only delays the request and is left out.
\<close>

record http_response =
  status :: nat
  statusText :: string
  errorText :: string
  retryAfter :: "string option"
  content :: "js_error + string"

record request_env =
  apiKey :: string
  imageFetch :: "js_error + string"
  apiFetch :: "js_error + http_response"

definition response_ok :: "http_response \<Rightarrow> bool" where
  "response_ok r = (200 \<le> status r \<and> status r \<le> 299)"

text \<open>
  \<open>parseInt\<close> on a header value: leading white space, an optional sign, decimal digits;
  \<open>None\<close> stands for \<open>NaN\<close>. (The hexadecimal prefix is not modelled.)
\<close>

definition is_digit :: "char \<Rightarrow> bool" where
  "is_digit c = (48 \<le> (of_char c :: nat) \<and> (of_char c :: nat) \<le> 57)"

definition digits_value :: "string \<Rightarrow> nat" where
  "digits_value ds = foldl (\<lambda>acc c. 10 * acc + (of_char c - 48)) 0 ds"

definition parseInt :: "string \<Rightarrow> int option" where
  "parseInt s =
     (let t = dropWhile is_space s;
          negative = (t \<noteq> [] \<and> hd t = CHR ''-'');
          u = (if t \<noteq> [] \<and> (hd t = CHR ''-'' \<or> hd t = CHR ''+'') then tl t else t);
          ds = takeWhile is_digit u
      in if ds = [] then None
         else Some ((if negative then - 1 else 1) * int (digits_value ds)))"

definition show_number :: "int option \<Rightarrow> string" where
  "show_number v =
     (case v of None \<Rightarrow> ''NaN''
      | Some i \<Rightarrow> if i < 0 then CHR ''-'' # show_nat (nat (- i)) else show_nat (nat i))"

definition waitTime :: "string option \<Rightarrow> int option" where
  "waitTime header =
     (case header of
        None \<Rightarrow> Some 5000
      | Some h \<Rightarrow> if h = [] then Some 5000 else map_option (\<lambda>v. v * 1000) (parseInt h))"

definition performOCR :: "request_env \<Rightarrow> js_error + string" where
  "performOCR env =
     (if apiKey env = [] then
        Inl (Error ''Mistral API key not configured. Please add your API key to the .env file.'')
      else
        case imageFetch env of
          Inl error \<Rightarrow> Inl error
        | Inr base64 \<Rightarrow>
            (case apiFetch env of
               Inl error \<Rightarrow> Inl error
             | Inr mistralResponse \<Rightarrow>
                 if \<not> response_ok mistralResponse then
                   (if status mistralResponse = 429 then
                      Inl (Error (''Mistral API rate limit: 429. Retry after '' @
                                  show_number (waitTime (retryAfter mistralResponse)) @ ''ms''))
                    else
                      Inl (Error (''Mistral OCR API error: '' @ show_nat (status mistralResponse) @
                                  '' '' @ statusText mistralResponse @ ''. '' @
                                  errorText mistralResponse)))
                 else content mistralResponse))"

text \<open>
  \<open>executeWithRetry\<close>: \<open>operation k\<close> is what the \<open>k\<close>-th invocation of the operation
  returns or throws. The run records how often the operation was invoked and the
  \<open>setTimeout\<close> delays waited between invocations.
\<close>

record 'a retry_run =
  retry_outcome :: "js_error + 'a"
  operation_calls :: nat
  backoff_delays :: "nat list"

function executeWithRetry_from ::
  "(nat \<Rightarrow> js_error + 'a) \<Rightarrow> nat \<Rightarrow> js_error option \<Rightarrow> nat list \<Rightarrow> 'a retry_run" where
  "executeWithRetry_from operation attempt lastError delays =
     (if attempt < MAX_RETRIES then
        (case operation attempt of
           Inr v \<Rightarrow>
             \<lparr>retry_outcome = Inr v, operation_calls = attempt + 1, backoff_delays = delays\<rparr>
         | Inl error \<Rightarrow>
             if includes_str (message error) ''429'' \<and> attempt < MAX_RETRIES - 1 then
               executeWithRetry_from operation (attempt + 1) (Some error)
                 (delays @ [BASE_DELAY * 2 ^ attempt])
             else if attempt = 0 \<and> \<not> includes_str (message error) ''429'' then
               \<lparr>retry_outcome = Inl error, operation_calls = attempt + 1,
                backoff_delays = delays\<rparr>
             else executeWithRetry_from operation (attempt + 1) (Some error) delays)
      else
        \<lparr>retry_outcome =
           Inl (case lastError of Some e \<Rightarrow> e
                | None \<Rightarrow> Error ''OCR failed after all retries''),
         operation_calls = attempt, backoff_delays = delays\<rparr>)"
  by pat_completeness auto
termination
  by (relation "measure (\<lambda>(operation, attempt, lastError, delays). MAX_RETRIES - attempt)") auto

declare executeWithRetry_from.simps [simp del]

definition executeWithRetry :: "(nat \<Rightarrow> js_error + 'a) \<Rightarrow> 'a retry_run" where
  "executeWithRetry operation = executeWithRetry_from operation 0 None []"

definition Mistral_extractTextFromImage :: "(nat \<Rightarrow> request_env) \<Rightarrow> string retry_run" where
  "Mistral_extractTextFromImage envs = executeWithRetry (\<lambda>k. performOCR (envs k))"


section \<open>EnhancedPDFService: page-by-page extraction\<close>

record PDFPageInfo =
  pageNumber :: nat
  page_text :: string
  page_wordCount :: nat
  page_processingTime :: nat
  page_ocrUsed :: bool

text \<open>
  One attempt at a page meets three collaborators: \<open>convertPDFPageToImage\<close>, the
  structural extraction (copying the page and \<open>extractBasicTextFromPage\<close>), and
  \<open>SmartOCRService.extractTextFromImage\<close>; each returns or throws (the processing
  catches an error of the arbiter, which in the two modes used here returns on every
  input). \<open>attempt_ms\<close> is how long the attempt's processing takes, which decides its
  race against the timer.
  \<open>progress\<close> is what the call of the optional \<open>onProgress\<close> callback made in this
  attempt does: \<open>None\<close> when no callback was passed or the call returns, \<open>Some e\<close> when
  the callback throws \<open>e\<close>.
\<close>

record page_attempt =
  imageConversion :: "js_error + string"
  basicExtraction :: "js_error + string"
  page_ocr :: "js_error + OCRResult"
  attempt_ms :: nat
  progress :: "js_error option"

text \<open>A call of the arbiter, logged with the structural text the unit had at that moment.\<close>

record ocr_request =
  req_unit :: nat
  req_mode :: ocr_mode
  req_image :: string
  req_structural :: string

definition MIN_TEXT_LENGTH :: nat where
  "MIN_TEXT_LENGTH = 20"

definition PAGE_TIMEOUT :: nat where
  "PAGE_TIMEOUT = 45000"

definition maxRetries :: nat where
  "maxRetries = 2"

definition batchSize :: nat where
  "batchSize = 5"

text \<open>The text of the structural extraction; \<open>pageText\<close> stays empty when it throws.\<close>

definition structuralText :: "page_attempt \<Rightarrow> string" where
  "structuralText a = (case basicExtraction a of Inr t \<Rightarrow> t | Inl textError \<Rightarrow> [])"

definition pageProcessing ::
  "bool \<Rightarrow> nat \<Rightarrow> page_attempt \<Rightarrow> string \<times> bool \<times> ocr_request list" where
  "pageProcessing useOnlineOCR pageNum a =
     (let pageImageUri = (case imageConversion a of Inr uri \<Rightarrow> uri | Inl conversionError \<Rightarrow> []);
          pageText = structuralText a
      in
      if (pageText = [] \<or> length (trim pageText) < MIN_TEXT_LENGTH) \<and> pageImageUri \<noteq> [] then
        (let ocrMode = (if useOnlineOCR then ModeAuto else ModeOffline);
             request = \<lparr>req_unit = pageNum + 1, req_mode = ocrMode, req_image = pageImageUri,
                        req_structural = pageText\<rparr>
         in case page_ocr a of
              Inr ocrResult \<Rightarrow> (ocr_text ocrResult, True, [request])
            | Inl ocrError \<Rightarrow>
                (''Page '' @ show_nat (pageNum + 1) @ '': Text extraction failed'', False,
                 [request]))
      else (pageText, False, []))"

text \<open>
  The \<open>while\<close> loop of one page works on the entries it has appended to \<open>pages\<close>
  (\<open>pushed\<close>), what it has appended to \<open>combinedText\<close> (\<open>page_combined\<close>), the arbiter
  calls made, the time since \<open>pageStartTime\<close> and the number of attempts started.
\<close>

record page_run =
  pushed :: "PDFPageInfo list"
  page_combined :: string
  page_requests :: "ocr_request list"
  page_elapsed :: nat
  page_attempts :: nat

definition pageInfo :: "nat \<Rightarrow> string \<Rightarrow> bool \<Rightarrow> nat \<Rightarrow> PDFPageInfo" where
  "pageInfo pageNum pageText ocrUsed pageProcessingTime =
     \<lparr>pageNumber = pageNum + 1, page_text = pageText,
      page_wordCount = wordCount_of pageText,
      page_processingTime = pageProcessingTime, page_ocrUsed = ocrUsed\<rparr>"

definition errorPageInfo :: "nat \<Rightarrow> js_error \<Rightarrow> nat \<Rightarrow> PDFPageInfo" where
  "errorPageInfo pageNum pageError pageProcessingTime =
     \<lparr>pageNumber = pageNum + 1,
      page_text = ''Error processing page '' @ show_nat (pageNum + 1) @ '': '' @ message pageError,
      page_wordCount = 0, page_processingTime = pageProcessingTime, page_ocrUsed = False\<rparr>"

text \<open>
  The \<open>try\<close> block of one iteration: the state after it and the error that reaches the
  \<open>catch\<close>, if any. The processing wins the race when it takes less than the timeout; it
  catches the errors of its collaborators itself, so the block throws only when the timer
  wins or when \<open>onProgress\<close>, called after the entry has been pushed, throws. An attempt
  that lost the race is not cancelled: the arbiter calls it makes are logged all the same.
\<close>

definition pageTry ::
  "bool \<Rightarrow> nat \<Rightarrow> page_attempt \<Rightarrow> nat \<Rightarrow> page_run \<Rightarrow> page_run \<times> js_error option" where
  "pageTry useOnlineOCR pageNum a retryCount run =
     (case pageProcessing useOnlineOCR pageNum a of
        (pageText, ocrUsed, made) \<Rightarrow>
          if attempt_ms a < PAGE_TIMEOUT then
            (let pageProcessingTime = page_elapsed run + attempt_ms a in
             (\<lparr>pushed = pushed run @ [pageInfo pageNum pageText ocrUsed pageProcessingTime],
               page_combined = page_combined run @ [newline] @ ''=== Page '' @
                               show_nat (pageNum + 1) @ '' ==='' @ [newline] @ pageText @
                               [newline],
               page_requests = page_requests run @ made,
               page_elapsed = pageProcessingTime,
               page_attempts = retryCount + 1\<rparr>,
              progress a))
          else
            (\<lparr>pushed = pushed run, page_combined = page_combined run,
              page_requests = page_requests run @ made,
              page_elapsed = page_elapsed run + PAGE_TIMEOUT,
              page_attempts = retryCount + 1\<rparr>,
             Some (Error ''Page processing timeout'')))"

text \<open>
  The loop: an iteration whose \<open>try\<close> block completes ends it; the \<open>catch\<close> counts the
  retry and either pushes the error entry, when the retries are used up, or waits a second
  and runs the next iteration.
\<close>

function processPage_from ::
  "bool \<Rightarrow> nat \<Rightarrow> (nat \<Rightarrow> page_attempt) \<Rightarrow> nat \<Rightarrow> page_run \<Rightarrow> page_run" where
  "processPage_from useOnlineOCR pageNum attempts retryCount run =
     (if retryCount \<le> maxRetries then
        (case pageTry useOnlineOCR pageNum (attempts retryCount) retryCount run of
           (run1, None) \<Rightarrow> run1
         | (run1, Some pageError) \<Rightarrow>
             if retryCount + 1 > maxRetries then
               run1\<lparr>pushed := pushed run1 @ [errorPageInfo pageNum pageError (page_elapsed run1)]\<rparr>
             else
               processPage_from useOnlineOCR pageNum attempts (retryCount + 1)
                 (run1\<lparr>page_elapsed := page_elapsed run1 + 1000\<rparr>))
      else run)"
  by pat_completeness auto
termination
  by (relation "measure (\<lambda>(u, pageNum, attempts, retryCount, run).
                  Suc maxRetries - retryCount)") auto

declare processPage_from.simps [simp del]

definition processPage :: "bool \<Rightarrow> nat \<Rightarrow> (nat \<Rightarrow> page_attempt) \<Rightarrow> page_run" where
  "processPage useOnlineOCR pageNum attempts =
     processPage_from useOnlineOCR pageNum attempts 0
       \<lparr>pushed = [], page_combined = [], page_requests = [], page_elapsed = 0,
        page_attempts = 0\<rparr>"

text \<open>The two nested \<open>for\<close> loops over batches of pages, on the accumulated state.\<close>

record pdf_state =
  pages :: "PDFPageInfo list"
  combinedText :: string
  ocr_log :: "ocr_request list"
  pdf_clock :: nat

function pdf_page_loop ::
  "bool \<Rightarrow> (nat \<Rightarrow> nat \<Rightarrow> page_attempt) \<Rightarrow> nat \<Rightarrow> nat \<Rightarrow> nat \<Rightarrow> pdf_state \<Rightarrow> pdf_state" where
  "pdf_page_loop useOnlineOCR world totalPages batchEnd pageNum st =
     (if pageNum < batchEnd then
        (let run = processPage useOnlineOCR pageNum (world pageNum);
             st1 = \<lparr>pages = pages st @ pushed run,
                    combinedText = combinedText st @ page_combined run,
                    ocr_log = ocr_log st @ page_requests run,
                    pdf_clock = pdf_clock st + page_elapsed run +
                      (if int pageNum < int totalPages - 1 then 500 else 0)\<rparr>
         in pdf_page_loop useOnlineOCR world totalPages batchEnd (pageNum + 1) st1)
      else st)"
  by pat_completeness auto
termination
  by (relation "measure (\<lambda>(u, world, totalPages, batchEnd, pageNum, st). batchEnd - pageNum)") auto

declare pdf_page_loop.simps [simp del]

function pdf_batch_loop ::
  "bool \<Rightarrow> (nat \<Rightarrow> nat \<Rightarrow> page_attempt) \<Rightarrow> bool \<Rightarrow> nat \<Rightarrow> nat \<Rightarrow> pdf_state \<Rightarrow> pdf_state" where
  "pdf_batch_loop useOnlineOCR world gc totalPages batchStart st =
     (if batchStart < totalPages then
        (let batchEnd = min (batchStart + batchSize) totalPages;
             st1 = pdf_page_loop useOnlineOCR world totalPages batchEnd batchStart st;
             st2 = (if gc \<and> batchEnd < totalPages
                    then st1\<lparr>pdf_clock := pdf_clock st1 + 1000\<rparr> else st1)
         in pdf_batch_loop useOnlineOCR world gc totalPages (batchStart + batchSize) st2)
      else st)"
  by pat_completeness auto
termination
  by (relation "measure (\<lambda>(u, world, gc, totalPages, batchStart, st). totalPages - batchStart)")
     (auto simp: batchSize_def)

declare pdf_batch_loop.simps [simp del]

text \<open>
  The document: \<open>pdfLoad\<close> is reading the file and \<open>PDFDocument.load\<close>, giving the page
  count or throwing; \<open>pageWorld pageNum retryCount\<close> is what the attempt with that retry
  count at that page meets. The \<open>summary\<close> string of the result is not modelled.
\<close>

record pdf_env =
  pdfLoad :: "js_error + nat"
  pageWorld :: "nat \<Rightarrow> nat \<Rightarrow> page_attempt"
  gcAvailable :: bool

record EnhancedPDFResult =
  pdf_pages :: "PDFPageInfo list"
  pdf_combinedText :: string
  totalPages :: nat
  pdf_totalWordCount :: nat
  pdf_totalProcessingTime :: nat

definition pdf_final_state :: "bool \<Rightarrow> pdf_env \<Rightarrow> nat \<Rightarrow> pdf_state" where
  "pdf_final_state useOnlineOCR env n =
     pdf_batch_loop useOnlineOCR (pageWorld env) (gcAvailable env) n 0
       \<lparr>pages = [], combinedText = [], ocr_log = [], pdf_clock = 0\<rparr>"

definition extractTextFromPDF :: "pdf_env \<Rightarrow> bool \<Rightarrow> js_error + EnhancedPDFResult" where
  "extractTextFromPDF env useOnlineOCR =
     (case pdfLoad env of
        Inl error \<Rightarrow> Inl (Error (''Enhanced PDF processing failed: '' @ message error))
      | Inr n \<Rightarrow>
          (let st = pdf_final_state useOnlineOCR env n in
           Inr \<lparr>pdf_pages = pages st, pdf_combinedText = trim (combinedText st),
                totalPages = n,
                pdf_totalWordCount = sum_list (map page_wordCount (pages st)),
                pdf_totalProcessingTime = pdf_clock st\<rparr>))"

definition pdf_ocr_requests :: "pdf_env \<Rightarrow> bool \<Rightarrow> ocr_request list" where
  "pdf_ocr_requests env useOnlineOCR =
     (case pdfLoad env of
        Inl error \<Rightarrow> []
      | Inr n \<Rightarrow> ocr_log (pdf_final_state useOnlineOCR env n))"


section \<open>EnhancedPPTXService: slide-by-slide extraction\<close>

record PPTXSlideInfo =
  slideNumber :: nat
  slide_text :: string
  slide_wordCount :: nat
  slide_processingTime :: nat
  slide_ocrUsed :: bool

text \<open>
  What the single pass over one slide meets: reading the slide part from the archive
  may throw; \<open>extractTextFromSlideXML\<close> and \<open>createSlideImageForOCR\<close> catch their own
  errors (the latter returns \<open>null\<close>, here \<open>None\<close>); the arbiter call and the deletion of
  the temporary image may throw. \<open>slide_ms\<close> is the time the pass takes.
  \<open>slide_progress\<close> is what the call of the optional \<open>onProgress\<close> callback for this
  slide does: \<open>None\<close> when no callback was passed or the call returns, \<open>Some e\<close> when the
  callback throws \<open>e\<close>.
\<close>

record slide_env =
  slideXml :: "js_error + string"
  xmlText :: string
  slideImage :: "string option"
  slide_ocr :: "js_error + OCRResult"
  imageDelete :: "js_error option"
  slide_ms :: nat
  slide_progress :: "js_error option"

record slide_run =
  slide_pushed :: "PPTXSlideInfo list"
  slide_combined :: string
  slide_requests :: "ocr_request list"
  slide_elapsed :: nat

definition errorSlideInfo :: "nat \<Rightarrow> js_error \<Rightarrow> nat \<Rightarrow> PPTXSlideInfo" where
  "errorSlideInfo slideNo slideError slideProcessingTime =
     \<lparr>slideNumber = slideNo,
      slide_text = ''Error processing slide '' @ show_nat slideNo @ '': '' @
                   error_to_string slideError,
      slide_wordCount = 0, slide_processingTime = slideProcessingTime,
      slide_ocrUsed = False\<rparr>"

definition slideInfo :: "nat \<Rightarrow> string \<Rightarrow> bool \<Rightarrow> nat \<Rightarrow> PPTXSlideInfo" where
  "slideInfo slideNo slideText ocrUsed slideProcessingTime =
     \<lparr>slideNumber = slideNo, slide_text = slideText,
      slide_wordCount = wordCount_of slideText,
      slide_processingTime = slideProcessingTime, slide_ocrUsed = ocrUsed\<rparr>"

text \<open>
  The \<open>try\<close> block of one slide up to the point where the entry is built: the text and
  the \<open>ocrUsed\<close> flag it arrives at, or the error it throws, with the arbiter calls it
  made.
\<close>

definition slideTry ::
  "bool \<Rightarrow> nat \<Rightarrow> slide_env \<Rightarrow> (js_error + string \<times> bool) \<times> ocr_request list" where
  "slideTry useOnlineOCR slideNo env =
     (case slideXml env of
        Inl error \<Rightarrow> (Inl error, [])
      | Inr xml \<Rightarrow>
          (let slideText = xmlText env in
           if slideText = [] \<or> length (trim slideText) < MIN_TEXT_LENGTH then
             (case slideImage env of
                None \<Rightarrow> (Inr (slideText, False), [])
              | Some slideImageUri \<Rightarrow>
                  if slideImageUri = [] then (Inr (slideText, False), [])
                  else
                    (let ocrMode = (if useOnlineOCR then ModeAuto else ModeOffline);
                         request = \<lparr>req_unit = slideNo, req_mode = ocrMode,
                                    req_image = slideImageUri, req_structural = slideText\<rparr>
                     in case slide_ocr env of
                          Inl error \<Rightarrow> (Inl error, [request])
                        | Inr ocrResult \<Rightarrow>
                            (case imageDelete env of
                               Some error \<Rightarrow> (Inl error, [request])
                             | None \<Rightarrow> (Inr (ocr_text ocrResult, True), [request]))))
           else (Inr (slideText, False), [])))"

text \<open>
  One iteration of the slide loop. When the \<open>try\<close> block gets as far as the entry, the
  entry is pushed and the text appended; then \<open>onProgress\<close> is called, still inside the
  \<open>try\<close> block. The \<open>catch\<close> pushes an error entry for whatever the block throws.
\<close>

definition processSlide :: "bool \<Rightarrow> nat \<Rightarrow> nat \<Rightarrow> slide_env \<Rightarrow> slide_run" where
  "processSlide useOnlineOCR i n env =
     (let slideNo = i + 1 in
      case slideTry useOnlineOCR slideNo env of
        (Inr (slideText, ocrUsed), made) \<Rightarrow>
          (let entry = slideInfo slideNo slideText ocrUsed (slide_ms env);
               heading = [newline] @ ''=== Slide '' @ show_nat slideNo @ '' ==='' @ [newline] @
                         slideText @ [newline]
           in case slide_progress env of
                None \<Rightarrow>
                  \<lparr>slide_pushed = [entry], slide_combined = heading, slide_requests = made,
                   slide_elapsed = slide_ms env +
                     (if int i < int n - 1 \<and> ocrUsed then 1000 else 0)\<rparr>
              | Some slideError \<Rightarrow>
                  \<lparr>slide_pushed = [entry, errorSlideInfo slideNo slideError (slide_ms env)],
                   slide_combined = heading, slide_requests = made,
                   slide_elapsed = slide_ms env\<rparr>)
      | (Inl slideError, made) \<Rightarrow>
          \<lparr>slide_pushed = [errorSlideInfo slideNo slideError (slide_ms env)],
           slide_combined = [], slide_requests = made, slide_elapsed = slide_ms env\<rparr>)"

record pptx_state =
  slides :: "PPTXSlideInfo list"
  pptx_combinedText :: string
  pptx_log :: "ocr_request list"
  pptx_clock :: nat

function pptx_slide_loop ::
  "bool \<Rightarrow> (string \<Rightarrow> slide_env) \<Rightarrow> string list \<Rightarrow> nat \<Rightarrow> pptx_state \<Rightarrow> pptx_state" where
  "pptx_slide_loop useOnlineOCR world slideFiles i st =
     (if i < length slideFiles then
        (let run = processSlide useOnlineOCR i (length slideFiles) (world (slideFiles ! i)) in
         pptx_slide_loop useOnlineOCR world slideFiles (i + 1)
           \<lparr>slides = slides st @ slide_pushed run,
            pptx_combinedText = pptx_combinedText st @ slide_combined run,
            pptx_log = pptx_log st @ slide_requests run,
            pptx_clock = pptx_clock st + slide_elapsed run\<rparr>)
      else st)"
  by pat_completeness auto
termination
  by (relation "measure (\<lambda>(u, world, slideFiles, i, st). length slideFiles - i)") auto

declare pptx_slide_loop.simps [simp del]

text \<open>
  The document: \<open>zipEntries\<close> is reading the file and \<open>JSZip.loadAsync\<close>, giving the names
  of the archive's entries or throwing; \<open>slideWorld name\<close> is what the pass over the slide
  part of that name meets. The \<open>summary\<close> string of the result is not modelled.
\<close>

record pptx_env =
  zipEntries :: "js_error + string list"
  slideWorld :: "string \<Rightarrow> slide_env"

record EnhancedPPTXResult =
  pptx_slides :: "PPTXSlideInfo list"
  pptx_text :: string
  totalSlides :: nat
  pptx_totalWordCount :: nat
  pptx_totalProcessingTime :: nat

definition slideFiles_of :: "string list \<Rightarrow> string list" where
  "slideFiles_of names =
     filter (\<lambda>name. startsWith name ''ppt/slides/slide'' \<and> endsWith name ''.xml'') names"

definition pptx_final_state :: "bool \<Rightarrow> pptx_env \<Rightarrow> string list \<Rightarrow> pptx_state" where
  "pptx_final_state useOnlineOCR env names =
     pptx_slide_loop useOnlineOCR (slideWorld env) (slideFiles_of names) 0
       \<lparr>slides = [], pptx_combinedText = [], pptx_log = [], pptx_clock = 0\<rparr>"

definition extractTextFromPPTX :: "pptx_env \<Rightarrow> bool \<Rightarrow> js_error + EnhancedPPTXResult" where
  "extractTextFromPPTX env useOnlineOCR =
     (case zipEntries env of
        Inl error \<Rightarrow> Inl (Error (''Enhanced PPTX processing failed: '' @ message error))
      | Inr names \<Rightarrow>
          (let st = pptx_final_state useOnlineOCR env names in
           Inr \<lparr>pptx_slides = slides st, pptx_text = trim (pptx_combinedText st),
                totalSlides = length (slideFiles_of names),
                pptx_totalWordCount = sum_list (map slide_wordCount (slides st)),
                pptx_totalProcessingTime = pptx_clock st\<rparr>))"

definition pptx_ocr_requests :: "pptx_env \<Rightarrow> bool \<Rightarrow> ocr_request list" where
  "pptx_ocr_requests env useOnlineOCR =
     (case zipEntries env of
        Inl error \<Rightarrow> []
      | Inr names \<Rightarrow> pptx_log (pptx_final_state useOnlineOCR env names))"

section \<open>EnhancedDOCXService: Word documents\<close>

datatype docx_method = ViaMammoth | ViaOfflineParser | ViaOcrFallback

text \<open>The result of the service (\<open>wordCount\<close> and \<open>processingTime\<close> left out).\<close>

record DOCXProcessingResult =
  docx_text :: string
  docx_via :: docx_method
  docx_images :: "string list"
  docx_warnings :: "string list"

record mammoth_message =
  msg_type :: string
  msg_text :: string

record mammoth_raw =
  raw_value :: string
  raw_messages :: "mammoth_message list"

record mammoth_result =
  mammoth_success :: bool
  mammoth_text :: string
  mammoth_images :: "string list"
  mammoth_warnings :: "string list"

text \<open>
  What a document meets while it is processed. For a Word document: \<open>mammoth\<close> is reading
  the file and \<open>mammoth.extractRawText\<close>, \<open>offlineParser\<close> is
  \<open>OfflineDOCXParser.extractTextOffline\<close> (its text and warnings). For a PDF:
  \<open>enhancedPDF\<close> is \<open>EnhancedPDFService.extractTextFromPDF\<close> called with a callback that
  only logs, \<open>pdfSummary\<close> the summary string of its result, \<open>basicPDF\<close> is
  \<open>PDFService.extractTextFromPDF\<close>. For a presentation: \<open>enhancedPPTX\<close> is
  \<open>EnhancedPPTXService.extractTextFromPPTX\<close> called without a callback. \<open>textRead\<close> is
  \<open>FileSystem.readAsStringAsync\<close>. A call of the arbiter made for the document meets
  \<open>doc_providers\<close> at the time \<open>doc_now\<close> with the static fields \<open>doc_service\<close>.
  \<open>freshId\<close> is the generated identifier and \<open>doc_ms\<close> the time the document takes.
\<close>

record doc_env =
  enhancedPDF :: "js_error + EnhancedPDFResult"
  pdfSummary :: string
  basicPDF :: "js_error + string"
  mammoth :: "js_error + mammoth_raw"
  offlineParser :: "js_error + string \<times> string list"
  enhancedPPTX :: "js_error + EnhancedPPTXResult"
  textRead :: "js_error + string"
  doc_providers :: ocr_env
  doc_now :: int
  doc_service :: SmartOCRService
  freshId :: string
  doc_ms :: nat

definition extractWithMammoth :: "doc_env \<Rightarrow> mammoth_result" where
  "extractWithMammoth env =
     (case mammoth env of
        Inr result \<Rightarrow>
          \<lparr>mammoth_success = (length (raw_value result) > 0),
           mammoth_text = raw_value result,
           mammoth_images =
             map (\<lambda>msg. ''Image found in document (not extracted)'')
               (filter (\<lambda>msg. msg_type msg = ''warning'' \<and> includes_str (msg_text msg) ''image'')
                  (raw_messages result)),
           mammoth_warnings =
             map (\<lambda>msg. msg_type msg @ '': '' @ msg_text msg) (raw_messages result)\<rparr>
      | Inl error \<Rightarrow>
          \<lparr>mammoth_success = False, mammoth_text = [], mammoth_images = [],
           mammoth_warnings = [''Mammoth error: '' @ message error]\<rparr>)"

definition show_source :: "ocr_source \<Rightarrow> string" where
  "show_source src =
     (case src of Mistral \<Rightarrow> ''mistral'' | Online \<Rightarrow> ''online'' | Offline \<Rightarrow> ''offline'')"

definition extractWithOCRFallback ::
  "bool \<Rightarrow> doc_env \<Rightarrow> string list \<Rightarrow> DOCXProcessingResult" where
  "extractWithOCRFallback useOnlineOCR env existingWarnings =
     (let ocrMode = (if useOnlineOCR then ModeAuto else ModeOffline) in
      case returned (extractTextFromImage ocrMode (doc_providers env) (doc_now env)
                       (doc_service env)) of
        Inr ocrResult \<Rightarrow>
          \<lparr>docx_text = ocr_text ocrResult, docx_via = ViaOcrFallback, docx_images = [],
           docx_warnings =
             filter (\<lambda>w. w \<noteq> [])
               (existingWarnings @
                [''Document processed using OCR fallback - text extraction may be less accurate'',
                 ''OCR source: '' @ show_source (source ocrResult),
                 if fallbackUsed ocrResult then ''OCR fallback was used due to API issues''
                 else []])\<rparr>
      | Inl error \<Rightarrow>
          \<lparr>docx_text =
             ''Failed to extract text from DOCX document.'' @ [newline, newline] @
             ''Mammoth parsing failed: '' @
             (if existingWarnings = [] \<or> hd existingWarnings = [] then ''Unknown error''
              else hd existingWarnings) @ [newline] @
             ''OCR fallback failed: '' @ message error @ [newline, newline] @
             ''Suggestions:'' @ [newline] @
             ''1. Ensure the DOCX file is not corrupted'' @ [newline] @
             ''2. Try converting the document to PDF format'' @ [newline] @
             ''3. Export individual pages as images for OCR processing'',
           docx_via = ViaOcrFallback, docx_images = [],
           docx_warnings = existingWarnings @ [''OCR fallback failed: '' @ message error]\<rparr>)"

definition extractWithOfflineParser ::
  "bool \<Rightarrow> doc_env \<Rightarrow> string list \<Rightarrow> DOCXProcessingResult" where
  "extractWithOfflineParser useOnlineOCR env existingWarnings =
     (case offlineParser env of
        Inr (offlineText, offlineWarnings) \<Rightarrow>
          if length offlineText > 50 then
            \<lparr>docx_text = offlineText, docx_via = ViaOfflineParser, docx_images = [],
             docx_warnings = existingWarnings @ offlineWarnings\<rparr>
          else
            extractWithOCRFallback useOnlineOCR env
              (existingWarnings @ offlineWarnings @
               [''Offline parser returned insufficient text''])
      | Inl error \<Rightarrow>
          extractWithOCRFallback useOnlineOCR env
            (existingWarnings @ [''Offline parser failed: '' @ message error]))"

text \<open>
  \<open>extractWithMammoth\<close> catches its own errors, so the \<open>catch\<close> of
  \<open>extractTextFromDOCX\<close> has nothing to catch; every path ends in a returned result.
\<close>

definition extractTextFromDOCX :: "bool \<Rightarrow> doc_env \<Rightarrow> DOCXProcessingResult" where
  "extractTextFromDOCX useOnlineOCR env =
     (let mammothResult = extractWithMammoth env in
      if mammoth_success mammothResult \<and> length (mammoth_text mammothResult) > 50 then
        \<lparr>docx_text = mammoth_text mammothResult, docx_via = ViaMammoth,
         docx_images = mammoth_images mammothResult,
         docx_warnings = mammoth_warnings mammothResult\<rparr>
      else extractWithOfflineParser useOnlineOCR env (mammoth_warnings mammothResult))"

text \<open>
  \<open>cleanDOCXText\<close>: \<^verbatim>\<open>\r\n\<close> becomes a line feed, three or more line feeds become two,
  a run of tabs becomes a space, two or more spaces become one, and the ends are trimmed.
\<close>

fun replace_crlf :: "string \<Rightarrow> string" where
  "replace_crlf (a # b # cs) =
     (if a = CHR 0x0D \<and> b = CHR 0x0A then CHR 0x0A # replace_crlf cs
      else a # replace_crlf (b # cs))"
| "replace_crlf cs = cs"

function replace_runs :: "char \<Rightarrow> nat \<Rightarrow> string \<Rightarrow> string \<Rightarrow> string" where
  "replace_runs c least replacement [] = []"
| "replace_runs c least replacement (x # xs) =
     (if x = c then
        (let run = x # takeWhile (\<lambda>y. y = c) xs in
         (if length run \<ge> least then replacement else run) @
         replace_runs c least replacement (dropWhile (\<lambda>y. y = c) xs))
      else x # replace_runs c least replacement xs)"
  by pat_completeness auto
termination
  by (relation "measure (\<lambda>(c, least, replacement, s). length s)")
     (auto simp: le_imp_less_Suc length_dropWhile_le)

definition cleanDOCXText :: "string \<Rightarrow> string" where
  "cleanDOCXText text_in =
     trim (replace_runs CHR 0x20 2 '' ''
             (replace_runs CHR 0x09 1 '' ''
                (replace_runs CHR 0x0A 3 [CHR 0x0A, CHR 0x0A] (replace_crlf text_in))))"

section \<open>DocumentProcessingService: dispatch and batch\<close>

record document =
  doc_uri :: string
  doc_name :: string
  doc_type :: string

text \<open>What a format processor hands to \<open>processDocument\<close>.\<close>

record extraction =
  ex_text :: string
  ex_imageDescriptions :: "string list"
  ex_pageCount :: "nat option"
  ex_processingMethod :: string
  ex_warnings :: "string list"

text \<open>
  \<open>processPDF\<close>: when the enhanced service throws, the basic extraction is tried, and
  only its error is thrown on.
\<close>

definition processPDF :: "doc_env \<Rightarrow> js_error + extraction" where
  "processPDF env =
     (case enhancedPDF env of
        Inr pdfResult \<Rightarrow>
          Inr \<lparr>ex_text = pdf_combinedText pdfResult,
               ex_imageDescriptions =
                 map (\<lambda>page. ''Page '' @ show_nat (pageNumber page) @ '': Processed with OCR ('' @
                              show_nat (page_wordCount page) @ '' words)'')
                   (filter page_ocrUsed (pdf_pages pdfResult)),
               ex_pageCount = Some (totalPages pdfResult),
               ex_processingMethod =
                 ''Enhanced multi-page ('' @
                 show_nat (length (filter page_ocrUsed (pdf_pages pdfResult))) @
                 '' pages used OCR)'',
               ex_warnings = [pdfSummary env]\<rparr>
      | Inl error \<Rightarrow>
          (case basicPDF env of
             Inr basicText \<Rightarrow>
               Inr \<lparr>ex_text = basicText, ex_imageDescriptions = [], ex_pageCount = Some 1,
                    ex_processingMethod = ''Basic fallback (enhanced processing failed)'',
                    ex_warnings = [''Enhanced processing failed: '' @ message error]\<rparr>
           | Inl fallbackError \<Rightarrow> Inl fallbackError))"

text \<open>
  \<open>processDOCX\<close> rethrows what \<open>EnhancedDOCXService.extractTextFromDOCX\<close> throws, which
  is nothing.
\<close>

definition processDOCX :: "bool \<Rightarrow> doc_env \<Rightarrow> extraction" where
  "processDOCX useOnlineOCR env =
     (let docxResult = extractTextFromDOCX useOnlineOCR env in
      \<lparr>ex_text = cleanDOCXText (docx_text docxResult),
       ex_imageDescriptions = docx_images docxResult,
       ex_pageCount = None,
       ex_processingMethod =
         (if docx_via docxResult = ViaMammoth then ''Mammoth.js parsing'' else ''OCR fallback''),
       ex_warnings = docx_warnings docxResult\<rparr>)"

text \<open>\<^verbatim>\<open>uri.split('/').pop()\<close>: what follows the last slash.\<close>

definition last_segment :: "string \<Rightarrow> string" where
  "last_segment uri = rev (takeWhile (\<lambda>c. c \<noteq> CHR ''/'') (rev uri))"

definition pptx_fallbackText :: "string \<Rightarrow> string" where
  "pptx_fallbackText uri =
     ''PowerPoint file detected: '' @ last_segment uri @ [newline] @
     ''      '' @ [newline] @
     ''To process PowerPoint files:'' @ [newline] @
     ''1. Export slides as images (PNG/JPG) from PowerPoint'' @ [newline] @
     ''2. Upload the individual slide images for OCR processing'' @ [newline] @
     ''3. Or convert the PowerPoint to PDF format first'' @ [newline, newline] @
     ''Current file cannot be processed directly as it contains structured presentation data, not image data.''"

text \<open>
  \<open>processPPTX\<close> catches every error of the slide service and returns instructions as
  the text of the document.
\<close>

definition processPPTX :: "string \<Rightarrow> doc_env \<Rightarrow> extraction" where
  "processPPTX uri env =
     (case enhancedPPTX env of
        Inr pptxResult \<Rightarrow>
          \<lparr>ex_text = pptx_text pptxResult, ex_imageDescriptions = [], ex_pageCount = None,
           ex_processingMethod =
             ''Slide-by-slide extraction ('' @
             show_nat (length (filter slide_ocrUsed (pptx_slides pptxResult))) @
             '' slides used OCR)'',
           ex_warnings =
             (if pptx_totalWordCount pptxResult < 100
              then [''Low text content extracted - presentation may be image-heavy'']
              else [])\<rparr>
      | Inl error \<Rightarrow>
          \<lparr>ex_text = pptx_fallbackText uri, ex_imageDescriptions = [], ex_pageCount = None,
           ex_processingMethod = ''Fallback instructions'',
           ex_warnings = [''PPTX processing failed - showing manual instructions'']\<rparr>)"

definition noTextDetected :: "OCRResult \<Rightarrow> string" where
  "noTextDetected result =
     ''Image processed but no text was detected.'' @ [newline, newline] @
     ''OCR Source: '' @ show_source (source result) @ [newline] @
     ''Processing Time: '' @ show_number (Some (processingTime result)) @ ''ms'' @ [newline] @
     ''Fallback Used: '' @ (if fallbackUsed result then ''Yes'' else ''No'') @
     [newline, newline] @
     ''Possible reasons:'' @ [newline] @
     ''1. Image quality is too low or blurry'' @ [newline] @
     ''2. Text is too small or at an angle  '' @ [newline] @
     ''3. Image contains handwriting (harder to recognize)'' @ [newline] @
     ''4. No text present in the image'' @ [newline, newline] @
     (if source result = Offline then ''Try online mode for better accuracy.''
      else ''Image may not contain readable text.'')"

definition processImage :: "bool \<Rightarrow> doc_env \<Rightarrow> js_error + string" where
  "processImage useOnlineOCR env =
     (let ocrMode = (if useOnlineOCR then ModeAuto else ModeOffline) in
      case returned (extractTextFromImage ocrMode (doc_providers env) (doc_now env)
                       (doc_service env)) of
        Inr result \<Rightarrow>
          if ocr_text result = [] \<or> length (trim (ocr_text result)) = 0
          then Inr (noTextDetected result)
          else Inr (ocr_text result)
      | Inl error \<Rightarrow> Inl error)"

definition processTextFile :: "doc_env \<Rightarrow> js_error + string" where
  "processTextFile env = textRead env"

record ProcessedDocument =
  pd_id :: string
  pd_name :: string
  pd_type :: string
  extractedText :: string
  imageDescriptions :: "string list"
  pageCount :: "nat option"
  pd_processingTime :: nat
  pd_wordCount :: nat
  processingMethod :: string
  warnings :: "string list"

definition processed ::
  "document \<Rightarrow> doc_env \<Rightarrow> string \<Rightarrow> string list \<Rightarrow> nat option \<Rightarrow> string \<Rightarrow> string list \<Rightarrow>
   ProcessedDocument" where
  "processed doc env text_out images count via warns =
     \<lparr>pd_id = freshId env, pd_name = doc_name doc, pd_type = doc_type doc,
      extractedText = text_out, imageDescriptions = images, pageCount = count,
      pd_processingTime = doc_ms env, pd_wordCount = wordCount_of text_out,
      processingMethod = via, warnings = warns\<rparr>"

definition processDocument ::
  "document \<Rightarrow> bool \<Rightarrow> doc_env \<Rightarrow> js_error + ProcessedDocument" where
  "processDocument doc useOnlineOCR env =
     (let documentType = doc_type doc in
      if includes_str documentType ''pdf'' then
        (case processPDF env of
           Inl error \<Rightarrow> Inl error
         | Inr result \<Rightarrow>
             Inr (processed doc env (ex_text result) (ex_imageDescriptions result)
                    (ex_pageCount result) (ex_processingMethod result) (ex_warnings result)))
      else if includes_str documentType ''word''
              \<or> includes_str documentType ''officedocument.wordprocessingml'' then
        (let result = processDOCX useOnlineOCR env in
         Inr (processed doc env (ex_text result) (ex_imageDescriptions result) None
                (ex_processingMethod result) (ex_warnings result)))
      else if includes_str documentType ''powerpoint''
              \<or> includes_str documentType ''presentationml'' then
        (let result = processPPTX (doc_uri doc) env in
         Inr (processed doc env (ex_text result) (ex_imageDescriptions result) None
                ''Unknown'' []))
      else if includes_str documentType ''image'' then
        (case processImage useOnlineOCR env of
           Inl error \<Rightarrow> Inl error
         | Inr text_out \<Rightarrow> Inr (processed doc env text_out [] None ''Unknown'' []))
      else if includes_str documentType ''text'' then
        (case processTextFile env of
           Inl error \<Rightarrow> Inl error
         | Inr text_out \<Rightarrow> Inr (processed doc env text_out [] None ''Unknown'' []))
      else Inl (Error (''Unsupported document type: '' @ documentType)))"

text \<open>The branch of \<open>processDocument\<close> that a document type takes, in the order of the tests.\<close>

datatype document_kind =
  KindPDF | KindWord | KindPresentation | KindImage | KindText | KindUnsupported

definition documentKind :: "string \<Rightarrow> document_kind" where
  "documentKind documentType =
     (if includes_str documentType ''pdf'' then KindPDF
      else if includes_str documentType ''word''
              \<or> includes_str documentType ''officedocument.wordprocessingml'' then KindWord
      else if includes_str documentType ''powerpoint''
              \<or> includes_str documentType ''presentationml'' then KindPresentation
      else if includes_str documentType ''image'' then KindImage
      else if includes_str documentType ''text'' then KindText
      else KindUnsupported)"

text \<open>\<open>Array.prototype.join\<close>.\<close>

fun join :: "string \<Rightarrow> string list \<Rightarrow> string" where
  "join sep [] = []"
| "join sep [x] = x"
| "join sep (x # y # rest) = x @ sep @ join sep (y # rest)"

definition combineDocumentContent :: "ProcessedDocument list \<Rightarrow> string" where
  "combineDocumentContent documents =
     join [newline, newline]
       (map (\<lambda>doc. ''=== '' @ pd_name doc @ '' ==='' @ [newline] @ extractedText doc @
                    (if length (imageDescriptions doc) > 0
                     then [newline, newline] @ ''Image Descriptions:'' @ [newline] @
                          join [newline] (imageDescriptions doc)
                     else []))
            documents)"

text \<open>
  \<open>processBatch\<close>: the loop keeps the processed documents; for a document whose
  processing throws, the \<open>catch\<close> writes a line to the console and goes on. The state of
  the loop is the list of processed documents and the time spent. The \<open>summary\<close> string
  of the result, built from the processed documents, is not modelled.
\<close>

record batch_state =
  processedDocuments :: "ProcessedDocument list"
  batch_ms :: nat

fun batch_loop :: "bool \<Rightarrow> (document \<times> doc_env) list \<Rightarrow> batch_state \<Rightarrow> batch_state" where
  "batch_loop useOnlineOCR [] st = st"
| "batch_loop useOnlineOCR ((doc, env) # rest) st =
     (case processDocument doc useOnlineOCR env of
        Inr processedDoc \<Rightarrow>
          batch_loop useOnlineOCR rest
            (st\<lparr>processedDocuments := processedDocuments st @ [processedDoc],
                batch_ms := batch_ms st + doc_ms env\<rparr>)
      | Inl error \<Rightarrow>
          batch_loop useOnlineOCR rest (st\<lparr>batch_ms := batch_ms st + doc_ms env\<rparr>))"

record BatchProcessingResult =
  documents :: "ProcessedDocument list"
  batch_combinedText :: string
  totalWordCount :: nat
  totalProcessingTime :: nat

definition processBatch :: "(document \<times> doc_env) list \<Rightarrow> bool \<Rightarrow> BatchProcessingResult" where
  "processBatch docs useOnlineOCR =
     (let st = batch_loop useOnlineOCR docs \<lparr>processedDocuments = [], batch_ms = 0\<rparr> in
      \<lparr>documents = processedDocuments st,
       batch_combinedText = combineDocumentContent (processedDocuments st),
       totalWordCount = sum_list (map pd_wordCount (processedDocuments st)),
       totalProcessingTime = batch_ms st\<rparr>)"

section \<open>Concrete inputs\<close>

text \<open>Inputs at which the theorems below are instantiated.\<close>

definition remote_down :: ocr_env where
  "remote_down =
     \<lparr>imageUri = ''file:///scan.jpg'',
      mistral_outcome = Inl (Error ''Network request failed''), mistral_ms = 100,
      fileInfo = Inr True, recognize = Inr \<lparr>rec_text = ''hello'', rec_blocks = []\<rparr>,
      device_ms = 50\<rparr>"

definition remote_up :: ocr_env where
  "remote_up =
     \<lparr>imageUri = ''file:///scan.jpg'',
      mistral_outcome = Inr ''Hello world'', mistral_ms = 100,
      fileInfo = Inr True, recognize = Inr \<lparr>rec_text = ''hello'', rec_blocks = []\<rparr>,
      device_ms = 50\<rparr>"

definition both_down :: ocr_env where
  "both_down =
     \<lparr>imageUri = ''file:///scan.jpg'',
      mistral_outcome = Inl (Error ''Network request failed''), mistral_ms = 100,
      fileInfo = Inr True, recognize = Inl (Error ''Recognition failed''),
      device_ms = 50\<rparr>"

definition empty_result :: OCRResult where
  "empty_result =
     \<lparr>ocr_text = [], source = Offline, confidence = 0, processingTime = 150,
      fallbackUsed = True\<rparr>"

definition noisy_image :: image_env where
  "noisy_image = \<lparr>providers = remote_up, image_progress = Some (Error ''progress failed'')\<rparr>"

definition quiet_image :: image_env where
  "quiet_image = \<lparr>providers = remote_up, image_progress = None\<rparr>"

definition remote_result :: OCRResult where
  "remote_result =
     \<lparr>ocr_text = ''Hello world'', source = Mistral, confidence = 9 / 10,
      processingTime = 100, fallbackUsed = False\<rparr>"

definition placeholder_result :: OCRResult where
  "placeholder_result =
     \<lparr>ocr_text = ''Failed to process image 1: Error: progress failed'', source = Offline,
      confidence = 0, processingTime = 0, fallbackUsed = True\<rparr>"

definition cooling_service :: SmartOCRService where
  "cooling_service =
     \<lparr>consecutiveFailures = 2, isTemporarilyOffline = True, offlineUntil = 302100\<rparr>"

definition one_failure_service :: SmartOCRService where
  "one_failure_service =
     \<lparr>consecutiveFailures = 1, isTemporarilyOffline = False, offlineUntil = 0\<rparr>"

definition rate_limited :: http_response where
  "rate_limited =
     \<lparr>status = 429, statusText = ''Too Many Requests'', errorText = ''slow down'',
      retryAfter = None, content = Inr []\<rparr>"

definition server_error :: http_response where
  "server_error =
     \<lparr>status = 500, statusText = ''Internal Server Error'', errorText = ''boom'',
      retryAfter = None, content = Inr []\<rparr>"

definition success_response :: http_response where
  "success_response =
     \<lparr>status = 200, statusText = ''OK'', errorText = [], retryAfter = None,
      content = Inr ''Hello''\<rparr>"

definition request_with :: "http_response \<Rightarrow> request_env" where
  "request_with r = \<lparr>apiKey = ''key'', imageFetch = Inr ''aGk='', apiFetch = Inr r\<rparr>"

definition flaky_world :: "nat \<Rightarrow> request_env" where
  "flaky_world k =
     request_with (if k = 0 then rate_limited else if k = 1 then server_error
                   else success_response)"

definition device_result :: OCRResult where
  "device_result =
     \<lparr>ocr_text = ''Scanned lecture notes'', source = Offline, confidence = 1 / 2,
      processingTime = 120, fallbackUsed = False\<rparr>"

definition scanned_attempt :: page_attempt where
  "scanned_attempt =
     \<lparr>imageConversion = Inr ''file:///cache/ocr_ready_page_1.txt'',
      basicExtraction = Inr ''p. 1'', page_ocr = Inr device_result, attempt_ms = 900,
      progress = None\<rparr>"

definition scanned_pdf :: pdf_env where
  "scanned_pdf =
     \<lparr>pdfLoad = Inr 1, pageWorld = (\<lambda>pageNum retryCount. scanned_attempt),
      gcAvailable = False\<rparr>"

definition scanned_request :: ocr_request where
  "scanned_request =
     \<lparr>req_unit = 1, req_mode = ModeAuto, req_image = ''file:///cache/ocr_ready_page_1.txt'',
      req_structural = ''p. 1''\<rparr>"

definition scanned_page :: PDFPageInfo where
  "scanned_page =
     \<lparr>pageNumber = 1, page_text = ''Scanned lecture notes'', page_wordCount = 3,
      page_processingTime = 900, page_ocrUsed = True\<rparr>"

definition scanned_pdf_result :: EnhancedPDFResult where
  "scanned_pdf_result =
     \<lparr>pdf_pages = [scanned_page],
      pdf_combinedText = ''=== Page 1 ==='' @ [newline] @ ''Scanned lecture notes'',
      totalPages = 1, pdf_totalWordCount = 3, pdf_totalProcessingTime = 900\<rparr>"

definition slow_attempt :: page_attempt where
  "slow_attempt =
     \<lparr>imageConversion = Inr ''file:///cache/ocr_ready_page_1.txt'',
      basicExtraction = Inr ''Chapter one of the lecture notes'',
      page_ocr = Inr device_result, attempt_ms = 60000, progress = None\<rparr>"

definition stuck_pdf :: pdf_env where
  "stuck_pdf =
     \<lparr>pdfLoad = Inr 1, pageWorld = (\<lambda>pageNum retryCount. slow_attempt),
      gcAvailable = False\<rparr>"

definition stuck_page :: PDFPageInfo where
  "stuck_page =
     \<lparr>pageNumber = 1, page_text = ''Error processing page 1: Page processing timeout'',
      page_wordCount = 0, page_processingTime = 137000, page_ocrUsed = False\<rparr>"

definition stuck_pdf_result :: EnhancedPDFResult where
  "stuck_pdf_result =
     \<lparr>pdf_pages = [stuck_page], pdf_combinedText = [], totalPages = 1,
      pdf_totalWordCount = 0, pdf_totalProcessingTime = 137000\<rparr>"

definition image_slide :: slide_env where
  "image_slide =
     \<lparr>slideXml = Inr ''<p:sld/>'', xmlText = [],
      slideImage = Some ''file:///cache/slide_1_enhanced.txt'',
      slide_ocr = Inr device_result, imageDelete = None, slide_ms = 700,
      slide_progress = None\<rparr>"

definition slow_slide :: slide_env where
  "slow_slide =
     \<lparr>slideXml = Inr ''<p:sld/>'', xmlText = ''Quarterly results and outlook'',
      slideImage = None, slide_ocr = Inr device_result, imageDelete = None,
      slide_ms = 60000, slide_progress = None\<rparr>"

definition broken_slide :: slide_env where
  "broken_slide =
     \<lparr>slideXml = Inl (Error ''Corrupted zip''), xmlText = [], slideImage = None,
      slide_ocr = Inr device_result, imageDelete = None, slide_ms = 5,
      slide_progress = None\<rparr>"

definition deck_of :: "slide_env \<Rightarrow> pptx_env" where
  "deck_of slide =
     \<lparr>zipEntries = Inr [''ppt/presentation.xml'', ''ppt/slides/slide1.xml''],
      slideWorld = (\<lambda>name. slide)\<rparr>"

definition slide_request :: ocr_request where
  "slide_request =
     \<lparr>req_unit = 1, req_mode = ModeOffline, req_image = ''file:///cache/slide_1_enhanced.txt'',
      req_structural = []\<rparr>"

definition image_slide_info :: PPTXSlideInfo where
  "image_slide_info =
     \<lparr>slideNumber = 1, slide_text = ''Scanned lecture notes'', slide_wordCount = 3,
      slide_processingTime = 700, slide_ocrUsed = True\<rparr>"

definition image_deck_result :: EnhancedPPTXResult where
  "image_deck_result =
     \<lparr>pptx_slides = [image_slide_info],
      pptx_text = ''=== Slide 1 ==='' @ [newline] @ ''Scanned lecture notes'',
      totalSlides = 1, pptx_totalWordCount = 3, pptx_totalProcessingTime = 700\<rparr>"

definition slow_slide_info :: PPTXSlideInfo where
  "slow_slide_info =
     \<lparr>slideNumber = 1, slide_text = ''Quarterly results and outlook'', slide_wordCount = 4,
      slide_processingTime = 60000, slide_ocrUsed = False\<rparr>"

definition slow_deck_result :: EnhancedPPTXResult where
  "slow_deck_result =
     \<lparr>pptx_slides = [slow_slide_info],
      pptx_text = ''=== Slide 1 ==='' @ [newline] @ ''Quarterly results and outlook'',
      totalSlides = 1, pptx_totalWordCount = 4, pptx_totalProcessingTime = 60000\<rparr>"

definition broken_slide_info :: PPTXSlideInfo where
  "broken_slide_info =
     \<lparr>slideNumber = 1, slide_text = ''Error processing slide 1: Error: Corrupted zip'',
      slide_wordCount = 0, slide_processingTime = 5, slide_ocrUsed = False\<rparr>"

definition broken_deck_result :: EnhancedPPTXResult where
  "broken_deck_result =
     \<lparr>pptx_slides = [broken_slide_info], pptx_text = [], totalSlides = 1,
      pptx_totalWordCount = 0, pptx_totalProcessingTime = 5\<rparr>"

definition noisy_attempt :: page_attempt where
  "noisy_attempt =
     \<lparr>imageConversion = Inr ''file:///cache/ocr_ready_page_1.txt'',
      basicExtraction = Inr ''Chapter one of the lecture notes'',
      page_ocr = Inr device_result, attempt_ms = 900,
      progress = Some (Error ''progress failed'')\<rparr>"

definition noisy_pdf :: pdf_env where
  "noisy_pdf =
     \<lparr>pdfLoad = Inr 1, pageWorld = (\<lambda>pageNum retryCount. noisy_attempt),
      gcAvailable = False\<rparr>"

definition chapter_page :: "nat \<Rightarrow> PDFPageInfo" where
  "chapter_page t =
     \<lparr>pageNumber = 1, page_text = ''Chapter one of the lecture notes'', page_wordCount = 6,
      page_processingTime = t, page_ocrUsed = False\<rparr>"

definition noisy_error_page :: PDFPageInfo where
  "noisy_error_page =
     \<lparr>pageNumber = 1, page_text = ''Error processing page 1: progress failed'',
      page_wordCount = 0, page_processingTime = 4700, page_ocrUsed = False\<rparr>"

definition noisy_slide :: slide_env where
  "noisy_slide =
     \<lparr>slideXml = Inr ''<p:sld/>'', xmlText = ''Quarterly results and outlook'',
      slideImage = None, slide_ocr = Inr device_result, imageDelete = None,
      slide_ms = 40, slide_progress = Some (Error ''progress failed'')\<rparr>"

definition noisy_slide_info :: PPTXSlideInfo where
  "noisy_slide_info =
     \<lparr>slideNumber = 1, slide_text = ''Quarterly results and outlook'', slide_wordCount = 4,
      slide_processingTime = 40, slide_ocrUsed = False\<rparr>"

definition noisy_error_slide :: PPTXSlideInfo where
  "noisy_error_slide =
     \<lparr>slideNumber = 1, slide_text = ''Error processing slide 1: Error: progress failed'',
      slide_wordCount = 0, slide_processingTime = 40, slide_ocrUsed = False\<rparr>"

definition readable_env :: doc_env where
  "readable_env =
     \<lparr>enhancedPDF = Inl (Error ''unused''), pdfSummary = [],
      basicPDF = Inl (Error ''unused''), mammoth = Inl (Error ''unused''),
      offlineParser = Inl (Error ''unused''), enhancedPPTX = Inl (Error ''unused''),
      textRead = Inr ''two words'', doc_providers = remote_down, doc_now = 0,
      doc_service = initial_service, freshId = ''17000000000001abcdef'', doc_ms = 12\<rparr>"

definition archive_env :: doc_env where
  "archive_env = readable_env\<lparr>freshId := ''17000000000002abcdef'', doc_ms := 0\<rparr>"

definition corrupt_deck_env :: doc_env where
  "corrupt_deck_env =
     readable_env\<lparr>enhancedPPTX := Inl (Error ''Enhanced PPTX processing failed: Corrupted zip''),
                  freshId := ''17000000000003abcdef'', doc_ms := 30\<rparr>"

definition notes_doc :: document where
  "notes_doc = \<lparr>doc_uri = ''file:///notes.txt'', doc_name = ''notes.txt'',
                  doc_type = ''text/plain''\<rparr>"

definition archive_doc :: document where
  "archive_doc = \<lparr>doc_uri = ''file:///a.zip'', doc_name = ''a.zip'',
                    doc_type = ''application/zip''\<rparr>"

definition deck_doc :: document where
  "deck_doc = \<lparr>doc_uri = ''file:///docs/deck.pptx'', doc_name = ''deck.pptx'',
                 doc_type = ''application/vnd.ms-powerpoint''\<rparr>"

definition notes_processed :: ProcessedDocument where
  "notes_processed =
     \<lparr>pd_id = ''17000000000001abcdef'', pd_name = ''notes.txt'', pd_type = ''text/plain'',
      extractedText = ''two words'', imageDescriptions = [], pageCount = None,
      pd_processingTime = 12, pd_wordCount = 2, processingMethod = ''Unknown'',
      warnings = []\<rparr>"

definition deck_processed :: ProcessedDocument where
  "deck_processed =
     \<lparr>pd_id = ''17000000000003abcdef'', pd_name = ''deck.pptx'',
      pd_type = ''application/vnd.ms-powerpoint'',
      extractedText = pptx_fallbackText ''file:///docs/deck.pptx'', imageDescriptions = [],
      pageCount = None, pd_processingTime = 30, pd_wordCount = 49,
      processingMethod = ''Unknown'', warnings = []\<rparr>"

definition three_documents :: "(document \<times> doc_env) list" where
  "three_documents =
     [(notes_doc, readable_env), (archive_doc, archive_env), (notes_doc, readable_env)]"

section \<open>Auxiliary lemmas\<close>

subsection \<open>Calls of the arbiter\<close>

lemma cooldown_call:
  "isTemporarilyOffline s \<Longrightarrow> now < offlineUntil s \<Longrightarrow>
   extractTextFromImage m env now s =
     \<lparr>returned = performOfflineOCR env now now True, service = s,
      called = [LocalProvider], settled = now + int (device_ms env)\<rparr>"
  by (simp add: extractTextFromImage_def)

lemma run_calls_cooldown:
  "isTemporarilyOffline s \<Longrightarrow> \<forall>(m, env, now) \<in> set cs. now < offlineUntil s \<Longrightarrow>
   (\<forall>step \<in> set (run_calls cs s). called step = [LocalProvider] \<and> service step = s) \<and>
   service_after (run_calls cs s) s = s"
proof (induction cs)
  case Nil
  then show ?case by (simp add: service_after_def)
next
  case (Cons c cs)
  obtain m env now where c: "c = (m, env, now)" by (cases c)
  from Cons.prems c have now: "now < offlineUntil s" by simp
  have step: "service (extractTextFromImage m env now s) = s"
    "called (extractTextFromImage m env now s) = [LocalProvider]"
    using Cons.prems(1) now by (simp_all add: cooldown_call)
  from Cons have IH: "(\<forall>step \<in> set (run_calls cs s). called step = [LocalProvider] \<and> service step = s) \<and>
   service_after (run_calls cs s) s = s" by simp
  show ?case using IH step c by (auto simp: service_after_def Let_def)
qed

lemma two_failures:
  assumes "\<not> isTemporarilyOffline s0" "consecutiveFailures s0 = 0"
    and "mistral_outcome e1 = Inl err1" "mistral_outcome e2 = Inl err2"
  shows "map called (run_calls [(ModeAuto, e1, t1), (ModeAuto, e2, t2)] s0) =
           [ [RemoteProvider, LocalProvider], [RemoteProvider, LocalProvider] ]"
    and "service_after (run_calls [(ModeAuto, e1, t1), (ModeAuto, e2, t2)] s0) s0 =
           s0\<lparr>consecutiveFailures := 2, isTemporarilyOffline := True, offlineUntil := t2 + int (mistral_ms e2) + 300000\<rparr>"
  using assms
  by (simp_all add: service_after_def extractTextFromImage_def performOnlineOCR_def Let_def
      MAX_CONSECUTIVE_FAILURES_def OFFLINE_COOLDOWN_def split: sum.splits)

lemma expiry_call:
  assumes "isTemporarilyOffline s" "offlineUntil s \<le> now"
  shows "\<not> isTemporarilyOffline (service (extractTextFromImage m env now s))"
    and "m \<noteq> ModeOffline \<Longrightarrow> hd (called (extractTextFromImage m env now s)) = RemoteProvider"
    and "consecutiveFailures (service (extractTextFromImage m env now s)) =
          (if m = ModeAuto \<and> isl (mistral_outcome env) then 1 else 0)"
  using assms
  by (cases m; auto simp add: extractTextFromImage_def performOnlineOCR_def Let_def
      MAX_CONSECUTIVE_FAILURES_def OFFLINE_COOLDOWN_def split: sum.splits)+

lemma performOfflineOCR_returns:
  "performOfflineOCR env now startTime fallback =
     Inr \<lparr>ocr_text = off_text (Offline_extractTextFromImage env), source = Offline,
          confidence = off_confidence (Offline_extractTextFromImage env),
          processingTime = now + int (device_ms env) - startTime, fallbackUsed = fallback\<rparr>"
  by (simp add: performOfflineOCR_def Let_def)

lemma arbiter_returns:
  "m \<noteq> ModeOnline \<or> (isTemporarilyOffline s \<and> now < offlineUntil s) \<Longrightarrow>
   \<exists>r. returned (extractTextFromImage m env now s) = Inr r"
  by (cases m)
     (auto simp: extractTextFromImage_def performOfflineOCR_returns Let_def split: sum.splits)

lemma failed_recognition:
  "recognizeOnDevice env = Inl e \<Longrightarrow>
   Offline_extractTextFromImage env =
     \<lparr>off_text = [], off_confidence = 0, off_processingTime = int (device_ms env)\<rparr>"
  by (simp add: Offline_extractTextFromImage_def)

subsection \<open>Substrings\<close>

lemma startsWith_iff: "startsWith s p \<longleftrightarrow> (\<exists>q. s = p @ q)"
  by (induction s p rule: startsWith.induct) auto

lemma includes_str_iff: "includes_str s sub \<longleftrightarrow> (\<exists>p q. s = p @ sub @ q)"
proof (induction s)
  case Nil
  then show ?case by auto
next
  case (Cons c cs)
  show ?case
  proof
    assume "includes_str (c # cs) sub"
    then consider "startsWith (c # cs) sub" | "includes_str cs sub" by auto
    then show "\<exists>p q. c # cs = p @ sub @ q"
    proof cases
      case 1
      then obtain q where "c # cs = sub @ q" by (auto simp: startsWith_iff)
      then have "c # cs = [] @ sub @ q" by simp
      then show ?thesis by blast
    next
      case 2
      with Cons obtain p q where "cs = p @ sub @ q" by auto
      then have "c # cs = (c # p) @ sub @ q" by simp
      then show ?thesis by blast
    qed
  next
    assume "\<exists>p q. c # cs = p @ sub @ q"
    then obtain p q where pq: "c # cs = p @ sub @ q" by blast
    show "includes_str (c # cs) sub"
    proof (cases p)
      case Nil
      with pq have "startsWith (c # cs) sub" by (auto simp: startsWith_iff)
      then show ?thesis by simp
    next
      case (Cons a p')
      with pq have "cs = p' @ sub @ q" by simp
      with Cons.IH [of] have "includes_str cs sub" using \<open>cs = p' @ sub @ q\<close>
        by (metis Cons.IH)
      then show ?thesis by simp
    qed
  qed
qed

lemma includes_str_middle: "includes_str (p @ sub @ q) sub"
  by (auto simp: includes_str_iff)

subsection \<open>The page loop of a PDF\<close>

lemma pdf_page_loop_pages:
  "pages (pdf_page_loop u w n e p st) =
     pages st @ concat (map (\<lambda>i. pushed (processPage u i (w i))) [p..<e])"
proof (induction u w n e p st rule: pdf_page_loop.induct)
  case (1 u w n e p st)
  show ?case
  proof (cases "p < e")
    case True
    then have "[p..<e] = p # [p + 1..<e]" by (simp add: upt_conv_Cons)
    then show ?thesis using True "1.IH" [OF True refl refl]
      by (subst pdf_page_loop.simps) (simp add: Let_def)
  next
    case False
    then show ?thesis by (subst pdf_page_loop.simps) simp
  qed
qed

lemma pdf_page_loop_log:
  "ocr_log (pdf_page_loop u w n e p st) =
     ocr_log st @ concat (map (\<lambda>i. page_requests (processPage u i (w i))) [p..<e])"
proof (induction u w n e p st rule: pdf_page_loop.induct)
  case (1 u w n e p st)
  show ?case
  proof (cases "p < e")
    case True
    then have "[p..<e] = p # [p + 1..<e]" by (simp add: upt_conv_Cons)
    then show ?thesis using True "1.IH" [OF True refl refl]
      by (subst pdf_page_loop.simps) (simp add: Let_def)
  next
    case False
    then show ?thesis by (subst pdf_page_loop.simps) simp
  qed
qed

lemma upt_batch: "b < n \<Longrightarrow> [b..<min (b + batchSize) n] @ [b + batchSize..<n] = [b..<n]"
proof (cases "b + batchSize \<le> n")
  case True
  assume "b < n"
  have "[b..<n] = [b..<b + batchSize] @ [b + batchSize..<n]"
    using True upt_add_eq_append [of b "b + batchSize" "n - (b + batchSize)"] by simp
  then show ?thesis using True by (simp add: min_def)
next
  case False
  then show ?thesis by (simp add: min_def)
qed

lemma pdf_batch_loop_pages:
  "pages (pdf_batch_loop u w gc n b st) =
     pages st @ concat (map (\<lambda>i. pushed (processPage u i (w i))) [b..<n])"
proof (induction u w gc n b st rule: pdf_batch_loop.induct)
  case (1 u w gc n b st)
  show ?case
  proof (cases "b < n")
    case True
    have "pages (pdf_batch_loop u w gc n b st) =
          (pages st @ concat (map (\<lambda>i. pushed (processPage u i (w i))) [b..<min (b + batchSize) n]))
            @ concat (map (\<lambda>i. pushed (processPage u i (w i))) [b + batchSize..<n])"
      using True "1.IH" [OF True refl refl refl]
      by (subst pdf_batch_loop.simps) (simp add: Let_def pdf_page_loop_pages)
    also have "\<dots> = pages st @ concat (map (\<lambda>i. pushed (processPage u i (w i)))
                        ([b..<min (b + batchSize) n] @ [b + batchSize..<n]))"
      by simp
    finally show ?thesis using upt_batch [OF True] by simp
  next
    case False
    then show ?thesis by (subst pdf_batch_loop.simps) simp
  qed
qed

lemma pdf_batch_loop_log:
  "ocr_log (pdf_batch_loop u w gc n b st) =
     ocr_log st @ concat (map (\<lambda>i. page_requests (processPage u i (w i))) [b..<n])"
proof (induction u w gc n b st rule: pdf_batch_loop.induct)
  case (1 u w gc n b st)
  show ?case
  proof (cases "b < n")
    case True
    have "ocr_log (pdf_batch_loop u w gc n b st) =
          (ocr_log st @ concat (map (\<lambda>i. page_requests (processPage u i (w i))) [b..<min (b + batchSize) n]))
            @ concat (map (\<lambda>i. page_requests (processPage u i (w i))) [b + batchSize..<n])"
      using True "1.IH" [OF True refl refl refl]
      by (subst pdf_batch_loop.simps) (simp add: Let_def pdf_page_loop_log)
    also have "\<dots> = ocr_log st @ concat (map (\<lambda>i. page_requests (processPage u i (w i)))
                        ([b..<min (b + batchSize) n] @ [b + batchSize..<n]))"
      by simp
    finally show ?thesis using upt_batch [OF True] by simp
  next
    case False
    then show ?thesis by (subst pdf_batch_loop.simps) simp
  qed
qed

lemma concat_singletons:
  "\<forall>i \<in> set xs. length (f i) = 1 \<Longrightarrow> concat (map f xs) = map (\<lambda>i. hd (f i)) xs"
proof (induction xs)
  case Nil
  then show ?case by simp
next
  case (Cons x xs)
  then have "length (f x) = 1" by simp
  then have "f x = [hd (f x)]" by (cases "f x") auto
  with Cons show ?case by simp
qed

lemma pdf_final_pages:
  "pages (pdf_final_state u env n) =
     concat (map (\<lambda>i. pushed (processPage u i (pageWorld env i))) [0..<n])"
  by (simp add: pdf_final_state_def pdf_batch_loop_pages)

lemma length_concat_singletons:
  "\<forall>i \<in> set xs. length (f i) = 1 \<Longrightarrow> length (concat (map f xs)) = length xs"
  by (simp add: concat_singletons)

subsection \<open>The attempts at one page\<close>

lemma pageTry_in_time:
  "attempt_ms a < PAGE_TIMEOUT \<Longrightarrow>
   pageTry u i a rc run =
     (\<lparr>pushed = pushed run @
                 [pageInfo i (fst (pageProcessing u i a)) (fst (snd (pageProcessing u i a)))
                    (page_elapsed run + attempt_ms a)],
       page_combined = page_combined run @ [newline] @ ''=== Page '' @ show_nat (i + 1) @
                       '' ==='' @ [newline] @ fst (pageProcessing u i a) @ [newline],
       page_requests = page_requests run @ snd (snd (pageProcessing u i a)),
       page_elapsed = page_elapsed run + attempt_ms a,
       page_attempts = rc + 1\<rparr>,
      progress a)"
  by (simp add: pageTry_def Let_def split: prod.splits)

lemma pageTry_timeout:
  "\<not> attempt_ms a < PAGE_TIMEOUT \<Longrightarrow>
   pageTry u i a rc run =
     (\<lparr>pushed = pushed run, page_combined = page_combined run,
       page_requests = page_requests run @ snd (snd (pageProcessing u i a)),
       page_elapsed = page_elapsed run + PAGE_TIMEOUT,
       page_attempts = rc + 1\<rparr>,
      Some (Error ''Page processing timeout''))"
  by (simp add: pageTry_def Let_def split: prod.splits)

lemma processPage_from_over:
  "\<not> rc \<le> maxRetries \<Longrightarrow> processPage_from u i w rc run = run"
  by (subst processPage_from.simps) simp

lemma processPage_from_done:
  "rc \<le> maxRetries \<Longrightarrow> pageTry u i (w rc) rc run = (run1, None) \<Longrightarrow>
   processPage_from u i w rc run = run1"
  by (subst processPage_from.simps) simp

lemma processPage_from_retry:
  "rc < maxRetries \<Longrightarrow> pageTry u i (w rc) rc run = (run1, Some e) \<Longrightarrow>
   processPage_from u i w rc run =
     processPage_from u i w (rc + 1) (run1\<lparr>page_elapsed := page_elapsed run1 + 1000\<rparr>)"
  by (subst processPage_from.simps) simp

lemma processPage_from_exhausted:
  "rc = maxRetries \<Longrightarrow> pageTry u i (w rc) rc run = (run1, Some e) \<Longrightarrow>
   processPage_from u i w rc run =
     run1\<lparr>pushed := pushed run1 @ [errorPageInfo i e (page_elapsed run1)]\<rparr>"
  by (subst processPage_from.simps) simp

text \<open>
  A property of the state that every \<open>try\<close> block, every wait and every error entry
  preserves holds at the end of the loop.
\<close>

lemma processPage_from_invariant:
  assumes start: "Inv run"
    and attempt: "\<And>rc run. rc \<le> maxRetries \<Longrightarrow> Inv run \<Longrightarrow> Inv (fst (pageTry u i (w rc) rc run))"
    and wait: "\<And>run t. Inv run \<Longrightarrow> Inv (run\<lparr>page_elapsed := t\<rparr>)"
    and failed: "\<And>run e t. Inv run \<Longrightarrow> Inv (run\<lparr>pushed := pushed run @ [errorPageInfo i e t]\<rparr>)"
  shows "Inv (processPage_from u i w rc run)"
  using start
proof (induction "Suc maxRetries - rc" arbitrary: rc run)
  case 0
  then have "\<not> rc \<le> maxRetries" by simp
  then show ?case using "0.prems" by (simp add: processPage_from_over)
next
  case (Suc n)
  then have le: "rc \<le> maxRetries" by simp
  obtain run1 thrown where pt: "pageTry u i (w rc) rc run = (run1, thrown)"
    by (cases "pageTry u i (w rc) rc run")
  have inv1: "Inv run1" using attempt [OF le Suc.prems] pt by simp
  show ?case
  proof (cases thrown)
    case None
    then show ?thesis using le pt inv1 by (simp add: processPage_from_done)
  next
    case (Some e)
    show ?thesis
    proof (cases "rc = maxRetries")
      case True
      then show ?thesis using pt Some failed [OF inv1]
        by (simp add: processPage_from_exhausted)
    next
      case False
      with le have lt: "rc < maxRetries" by simp
      have n: "n = Suc maxRetries - (rc + 1)" using Suc.hyps(2) by simp
      have "Inv (processPage_from u i w (rc + 1) (run1\<lparr>page_elapsed := page_elapsed run1 + 1000\<rparr>))"
        by (rule Suc.hyps(1) [OF n wait [OF inv1]])
      then show ?thesis using lt pt Some by (simp add: processPage_from_retry)
    qed
  qed
qed

lemma pageTry_requests:
  "page_requests (fst (pageTry u i a rc run)) =
     page_requests run @ snd (snd (pageProcessing u i a))"
  by (cases "attempt_ms a < PAGE_TIMEOUT") (simp_all add: pageTry_in_time pageTry_timeout)

lemma pageTry_pushed:
  "pushed (fst (pageTry u i a rc run)) =
     pushed run @
     (if attempt_ms a < PAGE_TIMEOUT
      then [pageInfo i (fst (pageProcessing u i a)) (fst (snd (pageProcessing u i a)))
              (page_elapsed run + attempt_ms a)]
      else [])"
  by (cases "attempt_ms a < PAGE_TIMEOUT") (simp_all add: pageTry_in_time pageTry_timeout)

lemma pageTry_attempts: "page_attempts (fst (pageTry u i a rc run)) = rc + 1"
  by (cases "attempt_ms a < PAGE_TIMEOUT") (simp_all add: pageTry_in_time pageTry_timeout)

lemma pageProcessing_request:
  "q \<in> set (snd (snd (pageProcessing u i a))) \<Longrightarrow>
   req_unit q = i + 1 \<and> req_structural q = structuralText a
   \<and> length (trim (structuralText a)) < MIN_TEXT_LENGTH"
  by (auto simp: pageProcessing_def Let_def trim_def MIN_TEXT_LENGTH_def
      split: if_splits sum.splits)

lemma pageProcessing_ocrUsed:
  "fst (snd (pageProcessing u i a)) \<Longrightarrow>
   \<exists>q \<in> set (snd (snd (pageProcessing u i a))). True"
  by (auto simp: pageProcessing_def Let_def split: if_splits sum.splits)

text \<open>Every arbiter call of a page is made by one of its at most three attempts.\<close>

lemma page_requests_from:
  "\<forall>q \<in> set (page_requests run).
     \<exists>k \<le> maxRetries. q \<in> set (snd (snd (pageProcessing u i (w k)))) \<Longrightarrow>
   \<forall>q \<in> set (page_requests (processPage_from u i w rc run)).
     \<exists>k \<le> maxRetries. q \<in> set (snd (snd (pageProcessing u i (w k))))"
  by (rule processPage_from_invariant) (auto simp: pageTry_requests)

lemma page_requests_processPage:
  "q \<in> set (page_requests (processPage u i w)) \<Longrightarrow>
   \<exists>k \<le> maxRetries. q \<in> set (snd (snd (pageProcessing u i (w k))))"
  using page_requests_from [of "\<lparr>pushed = [], page_combined = [], page_requests = [],
      page_elapsed = 0, page_attempts = 0\<rparr>" u i w 0]
  by (simp add: processPage_def)

text \<open>
  Every entry of a page carries the page's number, and an entry with \<open>ocrUsed = true\<close>
  has an arbiter call of the page made on a short structural text.
\<close>

lemma page_entries_from:
  "\<forall>p \<in> set (pushed run). pageNumber p = i + 1 \<and>
     (page_ocrUsed p \<longrightarrow>
        (\<exists>q \<in> set (page_requests run).
           req_unit q = i + 1 \<and> length (trim (req_structural q)) < MIN_TEXT_LENGTH)) \<Longrightarrow>
   \<forall>p \<in> set (pushed (processPage_from u i w rc run)). pageNumber p = i + 1 \<and>
     (page_ocrUsed p \<longrightarrow>
        (\<exists>q \<in> set (page_requests (processPage_from u i w rc run)).
           req_unit q = i + 1 \<and> length (trim (req_structural q)) < MIN_TEXT_LENGTH))"
proof (rule processPage_from_invariant, assumption)
  fix rc :: nat and run :: page_run
  assume inv: "\<forall>p \<in> set (pushed run). pageNumber p = i + 1 \<and>
     (page_ocrUsed p \<longrightarrow>
        (\<exists>q \<in> set (page_requests run).
           req_unit q = i + 1 \<and> length (trim (req_structural q)) < MIN_TEXT_LENGTH))"
  have new: "\<exists>q \<in> set (snd (snd (pageProcessing u i (w rc)))).
           req_unit q = i + 1 \<and> length (trim (req_structural q)) < MIN_TEXT_LENGTH"
    if "fst (snd (pageProcessing u i (w rc)))"
    using pageProcessing_ocrUsed [OF that] pageProcessing_request [of _ u i "w rc"] by auto
  show "\<forall>p \<in> set (pushed (fst (pageTry u i (w rc) rc run))). pageNumber p = i + 1 \<and>
     (page_ocrUsed p \<longrightarrow>
        (\<exists>q \<in> set (page_requests (fst (pageTry u i (w rc) rc run))).
           req_unit q = i + 1 \<and> length (trim (req_structural q)) < MIN_TEXT_LENGTH))"
    using inv new by (auto simp: pageTry_pushed pageTry_requests pageInfo_def)
next
  fix run :: page_run and t
  assume "\<forall>p \<in> set (pushed run). pageNumber p = i + 1 \<and>
     (page_ocrUsed p \<longrightarrow>
        (\<exists>q \<in> set (page_requests run).
           req_unit q = i + 1 \<and> length (trim (req_structural q)) < MIN_TEXT_LENGTH))"
  then show "\<forall>p \<in> set (pushed (run\<lparr>page_elapsed := t\<rparr>)). pageNumber p = i + 1 \<and>
     (page_ocrUsed p \<longrightarrow>
        (\<exists>q \<in> set (page_requests (run\<lparr>page_elapsed := t\<rparr>)).
           req_unit q = i + 1 \<and> length (trim (req_structural q)) < MIN_TEXT_LENGTH))"
    by simp
next
  fix run :: page_run and e t
  assume "\<forall>p \<in> set (pushed run). pageNumber p = i + 1 \<and>
     (page_ocrUsed p \<longrightarrow>
        (\<exists>q \<in> set (page_requests run).
           req_unit q = i + 1 \<and> length (trim (req_structural q)) < MIN_TEXT_LENGTH))"
  then show "\<forall>p \<in> set (pushed (run\<lparr>pushed := pushed run @ [errorPageInfo i e t]\<rparr>)).
     pageNumber p = i + 1 \<and>
     (page_ocrUsed p \<longrightarrow>
        (\<exists>q \<in> set (page_requests (run\<lparr>pushed := pushed run @ [errorPageInfo i e t]\<rparr>)).
           req_unit q = i + 1 \<and> length (trim (req_structural q)) < MIN_TEXT_LENGTH))"
    by (auto simp: errorPageInfo_def)
qed

lemma page_entries_processPage:
  "p \<in> set (pushed (processPage u i w)) \<Longrightarrow>
   pageNumber p = i + 1 \<and>
   (page_ocrUsed p \<longrightarrow>
      (\<exists>q \<in> set (page_requests (processPage u i w)).
         req_unit q = i + 1 \<and> length (trim (req_structural q)) < MIN_TEXT_LENGTH))"
  using page_entries_from [of "\<lparr>pushed = [], page_combined = [], page_requests = [],
      page_elapsed = 0, page_attempts = 0\<rparr>" i u w 0]
  by (simp add: processPage_def)

lemma page_attempts_from:
  "page_attempts run \<le> maxRetries + 1 \<Longrightarrow>
   page_attempts (processPage_from u i w rc run) \<le> maxRetries + 1"
  by (rule processPage_from_invariant) (auto simp: pageTry_attempts)

lemma processPage_attempts_le: "page_attempts (processPage u i w) \<le> maxRetries + 1"
  unfolding processPage_def by (rule page_attempts_from) simp

text \<open>An entry that has been pushed stays.\<close>

lemma pushed_kept_from:
  "p \<in> set (pushed run) \<Longrightarrow> p \<in> set (pushed (processPage_from u i w rc run))"
  by (rule processPage_from_invariant) (auto simp: pageTry_pushed)

text \<open>The paths of the loop on which no callback throws, and the path of three timeouts.\<close>

lemma processPage_cases:
  "(attempt_ms (w 0) < PAGE_TIMEOUT \<and> progress (w 0) = None \<longrightarrow>
      pushed (processPage u i w) =
        [pageInfo i (fst (pageProcessing u i (w 0))) (fst (snd (pageProcessing u i (w 0))))
           (attempt_ms (w 0))]
      \<and> page_attempts (processPage u i w) = 1)
   \<and> (\<not> attempt_ms (w 0) < PAGE_TIMEOUT \<and> attempt_ms (w 1) < PAGE_TIMEOUT
        \<and> progress (w 1) = None \<longrightarrow>
      pushed (processPage u i w) =
        [pageInfo i (fst (pageProcessing u i (w 1))) (fst (snd (pageProcessing u i (w 1))))
           (PAGE_TIMEOUT + 1000 + attempt_ms (w 1))]
      \<and> page_attempts (processPage u i w) = 2)
   \<and> (\<not> attempt_ms (w 0) < PAGE_TIMEOUT \<and> \<not> attempt_ms (w 1) < PAGE_TIMEOUT
        \<and> attempt_ms (w 2) < PAGE_TIMEOUT \<and> progress (w 2) = None \<longrightarrow>
      pushed (processPage u i w) =
        [pageInfo i (fst (pageProcessing u i (w 2))) (fst (snd (pageProcessing u i (w 2))))
           (2 * (PAGE_TIMEOUT + 1000) + attempt_ms (w 2))]
      \<and> page_attempts (processPage u i w) = 3)
   \<and> (\<not> attempt_ms (w 0) < PAGE_TIMEOUT \<and> \<not> attempt_ms (w 1) < PAGE_TIMEOUT
        \<and> \<not> attempt_ms (w 2) < PAGE_TIMEOUT \<longrightarrow>
      pushed (processPage u i w) =
        [errorPageInfo i (Error ''Page processing timeout'') (3 * PAGE_TIMEOUT + 2000)]
      \<and> page_attempts (processPage u i w) = 3)"
proof -
  have two: "Suc (Suc 0) = 2" by simp
  have win: "rc \<le> maxRetries \<Longrightarrow> attempt_ms (w rc) < PAGE_TIMEOUT \<Longrightarrow> progress (w rc) = None \<Longrightarrow>
      processPage_from u i w rc run = fst (pageTry u i (w rc) rc run)" for rc run
    by (rule processPage_from_done) (simp_all add: pageTry_in_time)
  have retry: "rc < maxRetries \<Longrightarrow> \<not> attempt_ms (w rc) < PAGE_TIMEOUT \<Longrightarrow>
      processPage_from u i w rc run =
        processPage_from u i w (rc + 1)
          ((fst (pageTry u i (w rc) rc run))
             \<lparr>page_elapsed := page_elapsed (fst (pageTry u i (w rc) rc run)) + 1000\<rparr>)" for rc run
    by (rule processPage_from_retry) (simp_all add: pageTry_timeout)
  have final: "rc = maxRetries \<Longrightarrow> \<not> attempt_ms (w rc) < PAGE_TIMEOUT \<Longrightarrow>
      processPage_from u i w rc run =
        (fst (pageTry u i (w rc) rc run))
          \<lparr>pushed := pushed (fst (pageTry u i (w rc) rc run)) @
             [errorPageInfo i (Error ''Page processing timeout'')
                (page_elapsed (fst (pageTry u i (w rc) rc run)))]\<rparr>" for rc run
    by (rule processPage_from_exhausted) (simp_all add: pageTry_timeout)
  show ?thesis
    unfolding processPage_def
    by (auto simp: win retry final pageTry_in_time pageTry_timeout maxRetries_def two ac_simps)
qed

lemma processPage_pushed:
  assumes "\<forall>k \<le> maxRetries. progress (w k) = None"
  shows "length (pushed (processPage u i w)) = 1"
proof -
  from assms have "progress (w 0) = None" "progress (w 1) = None" "progress (w 2) = None"
    by (simp_all add: maxRetries_def)
  then show ?thesis
    using processPage_cases [of w u i]
    by (cases "attempt_ms (w 0) < PAGE_TIMEOUT"; cases "attempt_ms (w 1) < PAGE_TIMEOUT";
        cases "attempt_ms (w 2) < PAGE_TIMEOUT") simp_all
qed

lemma le_two_cases: "k \<le> maxRetries \<Longrightarrow> k = 0 \<or> k = 1 \<or> k = 2"
  by (auto simp: maxRetries_def)

lemma processPage_first_in_time:
  assumes k: "k \<le> maxRetries" and win: "attempt_ms (w k) < PAGE_TIMEOUT"
    and before: "\<forall>j < k. \<not> attempt_ms (w j) < PAGE_TIMEOUT"
    and quiet: "progress (w k) = None"
  shows "page_attempts (processPage u i w) = k + 1
     \<and> (\<exists>t. pushed (processPage u i w) =
              [pageInfo i (fst (pageProcessing u i (w k))) (fst (snd (pageProcessing u i (w k)))) t])"
proof -
  from le_two_cases [OF k] consider "k = 0" | "k = 1" | "k = 2" by blast
  then show ?thesis
  proof cases
    case 1
    with win quiet show ?thesis using processPage_cases [of w u i] by auto
  next
    case 2
    with win before have "\<not> attempt_ms (w 0) < PAGE_TIMEOUT \<and> attempt_ms (w 1) < PAGE_TIMEOUT"
      by simp
    with 2 quiet show ?thesis using processPage_cases [of w u i] by auto
  next
    case 3
    with before have "\<not> attempt_ms (w 0) < PAGE_TIMEOUT" "\<not> attempt_ms (w 1) < PAGE_TIMEOUT"
      by simp_all
    with 3 win quiet show ?thesis using processPage_cases [of w u i] by auto
  qed
qed

lemma processPage_exhausted:
  assumes "\<forall>k \<le> maxRetries. \<not> attempt_ms (w k) < PAGE_TIMEOUT"
  shows "page_attempts (processPage u i w) = maxRetries + 1
     \<and> pushed (processPage u i w) =
          [errorPageInfo i (Error ''Page processing timeout'') (3 * PAGE_TIMEOUT + 2000)]"
proof -
  from assms have "\<not> attempt_ms (w 0) < PAGE_TIMEOUT" "\<not> attempt_ms (w 1) < PAGE_TIMEOUT"
    "\<not> attempt_ms (w 2) < PAGE_TIMEOUT" by (simp_all add: maxRetries_def)
  then show ?thesis using processPage_cases [of w u i] by (simp add: maxRetries_def)
qed

text \<open>
  Whatever the callback does, the attempt that finishes in time leaves its entry, and an
  attempt that times out before the last one leads to the next attempt.
\<close>

lemma in_time_entry_from:
  assumes le: "rc \<le> maxRetries" and win: "attempt_ms (w rc) < PAGE_TIMEOUT"
  shows "pageInfo i (fst (pageProcessing u i (w rc))) (fst (snd (pageProcessing u i (w rc))))
           (page_elapsed run + attempt_ms (w rc))
         \<in> set (pushed (processPage_from u i w rc run))"
proof -
  obtain run1 where pt: "pageTry u i (w rc) rc run = (run1, progress (w rc))"
    and mem: "pageInfo i (fst (pageProcessing u i (w rc))) (fst (snd (pageProcessing u i (w rc))))
           (page_elapsed run + attempt_ms (w rc)) \<in> set (pushed run1)"
    using win by (simp add: pageTry_in_time)
  show ?thesis
  proof (cases "progress (w rc)")
    case None
    with pt le mem show ?thesis by (simp add: processPage_from_done)
  next
    case (Some e)
    show ?thesis
    proof (cases "rc = maxRetries")
      case True
      with pt Some mem show ?thesis by (simp add: processPage_from_exhausted)
    next
      case False
      with le have lt: "rc < maxRetries" by simp
      have "pageInfo i (fst (pageProcessing u i (w rc))) (fst (snd (pageProcessing u i (w rc))))
           (page_elapsed run + attempt_ms (w rc))
          \<in> set (pushed (run1\<lparr>page_elapsed := page_elapsed run1 + 1000\<rparr>))"
        using mem by simp
      from pushed_kept_from [OF this] show ?thesis
        using lt pt Some by (simp add: processPage_from_retry)
    qed
  qed
qed

lemma timeout_retry_from:
  "rc < maxRetries \<Longrightarrow> \<not> attempt_ms (w rc) < PAGE_TIMEOUT \<Longrightarrow>
   processPage_from u i w rc run =
     processPage_from u i w (rc + 1)
       \<lparr>pushed = pushed run, page_combined = page_combined run,
        page_requests = page_requests run @ snd (snd (pageProcessing u i (w rc))),
        page_elapsed = page_elapsed run + PAGE_TIMEOUT + 1000,
        page_attempts = rc + 1\<rparr>"
  using processPage_from_retry [of rc u i w run _ "Error ''Page processing timeout''"]
  by (simp add: pageTry_timeout)

lemma processPage_in_time_entry:
  assumes k: "k \<le> maxRetries" and win: "attempt_ms (w k) < PAGE_TIMEOUT"
    and before: "\<forall>j < k. \<not> attempt_ms (w j) < PAGE_TIMEOUT"
  shows "\<exists>t. pageInfo i (fst (pageProcessing u i (w k))) (fst (snd (pageProcessing u i (w k)))) t
              \<in> set (pushed (processPage u i w))"
proof -
  define run0 :: page_run where
    "run0 = \<lparr>pushed = [], page_combined = [], page_requests = [], page_elapsed = 0,
             page_attempts = 0\<rparr>"
  have start: "processPage u i w = processPage_from u i w 0 run0"
    by (simp add: processPage_def run0_def)
  from le_two_cases [OF k] consider "k = 0" | "k = 1" | "k = 2" by blast
  then show ?thesis
  proof cases
    case 1
    with win show ?thesis
      using in_time_entry_from [of 0 w i u run0] start by auto
  next
    case 2
    with before have late: "\<not> attempt_ms (w 0) < PAGE_TIMEOUT" by simp
    obtain run1 where "processPage_from u i w 0 run0 = processPage_from u i w 1 run1"
      using timeout_retry_from [of 0 w u i run0] late by (simp add: maxRetries_def)
    then show ?thesis
      using 2 win in_time_entry_from [of 1 w i u run1] start
      by (auto simp: maxRetries_def)
  next
    case 3
    with before have late: "\<not> attempt_ms (w 0) < PAGE_TIMEOUT" "\<not> attempt_ms (w 1) < PAGE_TIMEOUT"
      by simp_all
    obtain run1 where one: "processPage_from u i w 0 run0 = processPage_from u i w 1 run1"
      using timeout_retry_from [of 0 w u i run0] late(1) by (simp add: maxRetries_def)
    obtain run2 where "processPage_from u i w 1 run1 = processPage_from u i w 2 run2"
      using timeout_retry_from [of 1 w u i run1] late(2)
      by (simp add: maxRetries_def numeral_2_eq_2)
    with one show ?thesis
      using 3 win in_time_entry_from [of 2 w i u run2] start
      by (auto simp: maxRetries_def)
  qed
qed

lemma pushed_singleton:
  "\<forall>k \<le> maxRetries. progress (w k) = None \<Longrightarrow>
   pushed (processPage u i w) = [hd (pushed (processPage u i w))]"
  using processPage_pushed [of w u i] by (cases "pushed (processPage u i w)") auto

subsection \<open>The slide loop of a PPTX\<close>

lemma pptx_slide_loop_slides:
  "slides (pptx_slide_loop u w fs i st) =
     slides st @ concat (map (\<lambda>j. slide_pushed (processSlide u j (length fs) (w (fs ! j))))
                          [i..<length fs])"
proof (induction u w fs i st rule: pptx_slide_loop.induct)
  case (1 u w fs i st)
  show ?case
  proof (cases "i < length fs")
    case True
    then have "[i..<length fs] = i # [i + 1..<length fs]" by (simp add: upt_conv_Cons)
    then show ?thesis using True "1.IH" [OF True refl]
      by (subst pptx_slide_loop.simps) (simp add: Let_def)
  next
    case False
    then show ?thesis by (subst pptx_slide_loop.simps) simp
  qed
qed

lemma pptx_slide_loop_log:
  "pptx_log (pptx_slide_loop u w fs i st) =
     pptx_log st @ concat (map (\<lambda>j. slide_requests (processSlide u j (length fs) (w (fs ! j))))
                          [i..<length fs])"
proof (induction u w fs i st rule: pptx_slide_loop.induct)
  case (1 u w fs i st)
  show ?case
  proof (cases "i < length fs")
    case True
    then have "[i..<length fs] = i # [i + 1..<length fs]" by (simp add: upt_conv_Cons)
    then show ?thesis using True "1.IH" [OF True refl]
      by (subst pptx_slide_loop.simps) (simp add: Let_def)
  next
    case False
    then show ?thesis by (subst pptx_slide_loop.simps) simp
  qed
qed

lemma pptx_final_slides:
  "slides (pptx_final_state u env names) =
     concat (map (\<lambda>j. slide_pushed (processSlide u j (length (slideFiles_of names))
                         (slideWorld env (slideFiles_of names ! j))))
               [0..<length (slideFiles_of names)])"
  by (simp add: pptx_final_state_def pptx_slide_loop_slides)

lemma slideTry_request:
  "q \<in> set (snd (slideTry u no env)) \<Longrightarrow>
   req_unit q = no \<and> req_structural q = xmlText env
   \<and> length (trim (xmlText env)) < MIN_TEXT_LENGTH"
  by (auto simp: slideTry_def Let_def trim_def MIN_TEXT_LENGTH_def
      split: if_splits sum.splits option.splits)

lemma slideTry_ocrUsed:
  "slideTry u no env = (Inr (t, True), made) \<Longrightarrow> made \<noteq> []"
  by (auto simp: slideTry_def Let_def split: if_splits sum.splits option.splits)

lemma slide_requests_processSlide:
  "slide_requests (processSlide u i n env) = snd (slideTry u (i + 1) env)"
  by (simp add: processSlide_def Let_def split: prod.splits sum.splits option.splits)

lemma processSlide_error:
  "slideTry u (i + 1) env = (Inl e, made) \<Longrightarrow>
   slide_pushed (processSlide u i n env) =
     [\<lparr>slideNumber = i + 1,
       slide_text = ''Error processing slide '' @ show_nat (i + 1) @ '': '' @ error_to_string e,
       slide_wordCount = 0, slide_processingTime = slide_ms env, slide_ocrUsed = False\<rparr>]"
  by (simp add: processSlide_def errorSlideInfo_def)

lemma processSlide_ok:
  "slideTry u (i + 1) env = (Inr (t, used), made) \<Longrightarrow> slide_progress env = None \<Longrightarrow>
   slide_pushed (processSlide u i n env) =
     [\<lparr>slideNumber = i + 1, slide_text = t, slide_wordCount = wordCount_of t,
       slide_processingTime = slide_ms env, slide_ocrUsed = used\<rparr>]"
  by (simp add: processSlide_def slideInfo_def)

lemma processSlide_thrown:
  "slideTry u (i + 1) env = (Inr (t, used), made) \<Longrightarrow> slide_progress env = Some e \<Longrightarrow>
   slide_pushed (processSlide u i n env) =
     [\<lparr>slideNumber = i + 1, slide_text = t, slide_wordCount = wordCount_of t,
       slide_processingTime = slide_ms env, slide_ocrUsed = used\<rparr>,
      errorSlideInfo (i + 1) e (slide_ms env)]"
  by (simp add: processSlide_def slideInfo_def)

lemma processSlide_entry:
  "slideTry u (i + 1) env = (Inr (t, used), made) \<Longrightarrow>
   \<lparr>slideNumber = i + 1, slide_text = t, slide_wordCount = wordCount_of t,
    slide_processingTime = slide_ms env, slide_ocrUsed = used\<rparr>
   \<in> set (slide_pushed (processSlide u i n env))"
  by (cases "slide_progress env") (simp_all add: processSlide_ok processSlide_thrown)

lemma processSlide_pushed:
  "slide_progress env = None \<Longrightarrow> length (slide_pushed (processSlide u i n env)) = 1"
  by (simp add: processSlide_def Let_def split: prod.splits sum.splits)

lemma slide_pushed_singleton:
  "slide_progress env = None \<Longrightarrow>
   slide_pushed (processSlide u i n env) = [hd (slide_pushed (processSlide u i n env))]"
  using processSlide_pushed [of env u i n] by (cases "slide_pushed (processSlide u i n env)") auto

lemma slide_entries:
  assumes "p \<in> set (slide_pushed (processSlide u i n env))"
  shows "slideNumber p = i + 1 \<and>
    (slide_ocrUsed p \<longrightarrow>
      (\<exists>q \<in> set (slide_requests (processSlide u i n env)).
          req_unit q = i + 1 \<and> length (trim (req_structural q)) < MIN_TEXT_LENGTH))"
proof -
  obtain out made where st: "slideTry u (i + 1) env = (out, made)"
    by (cases "slideTry u (i + 1) env") auto
  show ?thesis
  proof (cases out)
    case (Inl e)
    with st assms show ?thesis by (simp add: processSlide_error)
  next
    case (Inr tu)
    obtain t used where tu: "tu = (t, used)" by (cases tu)
    from Inr tu st assms have num: "slideNumber p = i + 1"
      and flag: "slide_ocrUsed p \<longrightarrow> used"
      by (cases "slide_progress env";
          auto simp: processSlide_ok processSlide_thrown errorSlideInfo_def)+
    have "\<exists>q \<in> set (slide_requests (processSlide u i n env)).
          req_unit q = i + 1 \<and> length (trim (req_structural q)) < MIN_TEXT_LENGTH"
      if "slide_ocrUsed p"
    proof -
      from that flag have used by simp
      with st Inr tu have "made \<noteq> []" using slideTry_ocrUsed [of u "i + 1" env t made] by simp
      then obtain q where q: "q \<in> set made" by (cases made) auto
      with st have "req_unit q = i + 1 \<and> length (trim (req_structural q)) < MIN_TEXT_LENGTH"
        using slideTry_request [of q u "i + 1" env] by simp
      then show ?thesis using q st by (auto simp: slide_requests_processSlide)
    qed
    with num show ?thesis by blast
  qed
qed

subsection \<open>Results of whole documents\<close>

lemma pdf_pages_concat:
  "extractTextFromPDF env u = Inr r \<Longrightarrow>
   pdfLoad env = Inr (totalPages r) \<and>
   pdf_pages r = concat (map (\<lambda>i. pushed (processPage u i (pageWorld env i))) [0..<totalPages r])"
  by (auto simp: extractTextFromPDF_def Let_def pdf_final_pages split: sum.splits)

lemma pdf_entry_in_result:
  "extractTextFromPDF env u = Inr r \<Longrightarrow> i < totalPages r \<Longrightarrow>
   p \<in> set (pushed (processPage u i (pageWorld env i))) \<Longrightarrow> p \<in> set (pdf_pages r)"
  using pdf_pages_concat [of env u r] by auto

lemma pdf_entry_origin:
  "extractTextFromPDF env u = Inr r \<Longrightarrow> p \<in> set (pdf_pages r) \<Longrightarrow>
   \<exists>i < totalPages r. p \<in> set (pushed (processPage u i (pageWorld env i)))"
  using pdf_pages_concat [of env u r] by auto

lemma pdf_pages_eq:
  assumes r: "extractTextFromPDF env u = Inr r"
    and quiet: "\<forall>j < totalPages r. \<forall>k \<le> maxRetries. progress (pageWorld env j k) = None"
  shows "pdf_pages r =
           map (\<lambda>i. hd (pushed (processPage u i (pageWorld env i)))) [0..<totalPages r]"
proof -
  have "\<forall>i \<in> set [0..<totalPages r]. length (pushed (processPage u i (pageWorld env i))) = 1"
    using quiet by (simp add: processPage_pushed)
  from concat_singletons [OF this] show ?thesis using pdf_pages_concat [OF r] by simp
qed

lemma pdf_requests_eq:
  "pdfLoad env = Inr n \<Longrightarrow>
   pdf_ocr_requests env u =
     concat (map (\<lambda>i. page_requests (processPage u i (pageWorld env i))) [0..<n])"
  by (simp add: pdf_ocr_requests_def pdf_final_state_def pdf_batch_loop_log)

lemma pdf_page_nth:
  assumes r: "extractTextFromPDF env u = Inr r"
    and quiet: "\<forall>j < totalPages r. \<forall>k \<le> maxRetries. progress (pageWorld env j k) = None"
    and i: "i < totalPages r"
  shows "pushed (processPage u i (pageWorld env i)) = [pdf_pages r ! i]"
proof -
  from quiet i have "\<forall>k \<le> maxRetries. progress (pageWorld env i k) = None" by simp
  from pushed_singleton [OF this, of u i] show ?thesis
    using pdf_pages_eq [OF r quiet] i by simp
qed

lemma pptx_slides_concat:
  "extractTextFromPPTX env u = Inr r \<Longrightarrow>
   (\<exists>names. zipEntries env = Inr names \<and> totalSlides r = length (slideFiles_of names) \<and>
   pptx_slides r =
     concat (map (\<lambda>j. slide_pushed (processSlide u j (length (slideFiles_of names))
                         (slideWorld env (slideFiles_of names ! j))))
               [0..<length (slideFiles_of names)]))"
  by (auto simp: extractTextFromPPTX_def Let_def pptx_final_slides split: sum.splits)

lemma pptx_slides_eq:
  assumes r: "extractTextFromPPTX env u = Inr r" and names: "zipEntries env = Inr names"
    and quiet: "\<forall>name \<in> set (slideFiles_of names). slide_progress (slideWorld env name) = None"
  shows "pptx_slides r =
     map (\<lambda>j. hd (slide_pushed (processSlide u j (length (slideFiles_of names))
                     (slideWorld env (slideFiles_of names ! j)))))
         [0..<length (slideFiles_of names)]"
proof -
  have "\<forall>j \<in> set [0..<length (slideFiles_of names)].
          length (slide_pushed (processSlide u j (length (slideFiles_of names))
                     (slideWorld env (slideFiles_of names ! j)))) = 1"
    using quiet by (simp add: processSlide_pushed)
  from concat_singletons [OF this] show ?thesis using pptx_slides_concat [OF r] names by simp
qed

lemma pptx_requests_eq:
  "zipEntries env = Inr names \<Longrightarrow>
   pptx_ocr_requests env u =
     concat (map (\<lambda>j. slide_requests (processSlide u j (length (slideFiles_of names))
                     (slideWorld env (slideFiles_of names ! j))))
         [0..<length (slideFiles_of names)])"
  by (simp add: pptx_ocr_requests_def pptx_final_state_def pptx_slide_loop_log)

lemma pptx_slide_nth:
  assumes r: "extractTextFromPPTX env u = Inr r" and names: "zipEntries env = Inr names"
    and quiet: "\<forall>name \<in> set (slideFiles_of names). slide_progress (slideWorld env name) = None"
    and i: "i < totalSlides r"
  shows "slide_pushed (processSlide u i (length (slideFiles_of names))
        (slideWorld env (slideFiles_of names ! i))) = [pptx_slides r ! i]"
proof -
  from pptx_slides_concat [OF r] names have total: "totalSlides r = length (slideFiles_of names)"
    by auto
  with quiet i have "slide_progress (slideWorld env (slideFiles_of names ! i)) = None" by simp
  from slide_pushed_singleton [OF this, of u i "length (slideFiles_of names)"] show ?thesis
    using pptx_slides_eq [OF r names quiet] i total by simp
qed

lemma pptx_entry_in_result:
  "extractTextFromPPTX env u = Inr r \<Longrightarrow> zipEntries env = Inr names \<Longrightarrow>
   i < totalSlides r \<Longrightarrow>
   p \<in> set (slide_pushed (processSlide u i (length (slideFiles_of names))
        (slideWorld env (slideFiles_of names ! i)))) \<Longrightarrow> p \<in> set (pptx_slides r)"
  using pptx_slides_concat [of env u r] by auto

lemma pptx_entry_origin:
  "extractTextFromPPTX env u = Inr r \<Longrightarrow> zipEntries env = Inr names \<Longrightarrow>
   p \<in> set (pptx_slides r) \<Longrightarrow>
   \<exists>i < totalSlides r. p \<in> set (slide_pushed (processSlide u i (length (slideFiles_of names))
        (slideWorld env (slideFiles_of names ! i))))"
  using pptx_slides_concat [of env u r] by auto

lemma hd_in_singleton: "length xs = 1 \<Longrightarrow> hd xs \<in> set xs"
  by (cases xs) auto

text \<open>When no call of the callback throws, a document has one entry for each unit.\<close>

lemma unit_count_when_progress_returns:
  "extractTextFromPDF env u = Inr r \<Longrightarrow>
   \<forall>j < totalPages r. \<forall>k \<le> maxRetries. progress (pageWorld env j k) = None \<Longrightarrow>
   length (pdf_pages r) = totalPages r"
  "extractTextFromPPTX penv u = Inr r' \<Longrightarrow> zipEntries penv = Inr names \<Longrightarrow>
   \<forall>name \<in> set (slideFiles_of names). slide_progress (slideWorld penv name) = None \<Longrightarrow>
   length (pptx_slides r') = totalSlides r'"
proof -
  show "length (pdf_pages r) = totalPages r"
    if "extractTextFromPDF env u = Inr r"
      "\<forall>j < totalPages r. \<forall>k \<le> maxRetries. progress (pageWorld env j k) = None"
    using pdf_pages_eq [OF that] by simp
  show "length (pptx_slides r') = totalSlides r'"
    if r: "extractTextFromPPTX penv u = Inr r'" and names: "zipEntries penv = Inr names"
      and quiet: "\<forall>name \<in> set (slideFiles_of names).
                    slide_progress (slideWorld penv name) = None"
  proof -
    from pptx_slides_concat [OF r] names
    have total: "totalSlides r' = length (slideFiles_of names)" by auto
    have "length (pptx_slides r') = length [0..<length (slideFiles_of names)]"
      by (simp only: pptx_slides_eq [OF r names quiet] length_map)
    then show ?thesis using total by simp
  qed
qed

subsection \<open>Documents and batches\<close>

lemma processImage_returns: "\<exists>t. processImage u env = Inr t"
proof -
  have "(if u then ModeAuto else ModeOffline) \<noteq> ModeOnline" by simp
  then have "\<exists>r. returned (extractTextFromImage (if u then ModeAuto else ModeOffline)
      (doc_providers env) (doc_now env) (doc_service env)) = Inr r"
    by (intro arbiter_returns disjI1)
  then show ?thesis by (auto simp: processImage_def Let_def)
qed

lemma processDocument_throws:
  "isl (processDocument doc u env) \<longleftrightarrow>
     documentKind (doc_type doc) = KindPDF \<and> isl (enhancedPDF env) \<and> isl (basicPDF env)
     \<or> documentKind (doc_type doc) = KindText \<and> isl (textRead env)
     \<or> documentKind (doc_type doc) = KindUnsupported"
  using processImage_returns [of u env]
  by (auto simp: processDocument_def documentKind_def processPDF_def processTextFile_def Let_def
      split: sum.splits)

lemma unsupported_type:
  "documentKind (doc_type doc) = KindUnsupported \<Longrightarrow>
   processDocument doc u env = Inl (Error (''Unsupported document type: '' @ doc_type doc))"
  by (auto simp: processDocument_def documentKind_def Let_def split: if_splits)

lemma presentation_fallback:
  "documentKind (doc_type doc) = KindPresentation \<Longrightarrow> enhancedPPTX env = Inl e \<Longrightarrow>
   processDocument doc u env =
     Inr (processed doc env (pptx_fallbackText (doc_uri doc)) [] None ''Unknown'' [])"
  by (auto simp: processDocument_def documentKind_def processPPTX_def Let_def split: if_splits)

lemma batch_loop_documents:
  "processedDocuments (batch_loop u xs st) =
     processedDocuments st @
     map (\<lambda>(doc, env). projr (processDocument doc u env))
       (filter (\<lambda>(doc, env). \<not> isl (processDocument doc u env)) xs)"
proof (induction xs arbitrary: st)
  case Nil
  then show ?case by simp
next
  case (Cons x xs)
  obtain d env where x: "x = (d, env)" by (cases x)
  show ?case using Cons.IH by (cases "processDocument d u env") (simp_all add: x)
qed

lemma filter_all_but_one:
  assumes k: "k < length xs" and bad: "\<not> P (xs ! k)"
    and good: "\<forall>j < length xs. j \<noteq> k \<longrightarrow> P (xs ! j)"
  shows "filter P xs = take k xs @ drop (Suc k) xs"
proof -
  have split: "xs = take k xs @ [xs ! k] @ drop (Suc k) xs"
    using k by (simp add: id_take_nth_drop)
  have before: "\<forall>x \<in> set (take k xs). P x"
  proof
    fix x assume "x \<in> set (take k xs)"
    then obtain j where "j < length (take k xs)" "x = take k xs ! j"
      by (auto simp: in_set_conv_nth)
    then have "j < k" "j < length xs" "x = xs ! j" using k by simp_all
    with good show "P x" by simp
  qed
  have after: "\<forall>x \<in> set (drop (Suc k) xs). P x"
  proof
    fix x assume "x \<in> set (drop (Suc k) xs)"
    then obtain j where j: "j < length (drop (Suc k) xs)" "x = drop (Suc k) xs ! j"
      by (auto simp: in_set_conv_nth)
    then have "Suc k + j < length xs" "x = xs ! (Suc k + j)" by simp_all
    with good show "P x" by simp
  qed
  have "filter P xs = filter P (take k xs) @ filter P [xs ! k] @ filter P (drop (Suc k) xs)"
    using split by (metis filter_append)
  then show ?thesis using before after bad by simp
qed

lemma filter_without_one:
  assumes k: "k < length xs" and good: "\<forall>j < length xs. j \<noteq> k \<longrightarrow> P (xs ! j)"
  shows "filter P (take k xs @ drop (Suc k) xs) = take k xs @ drop (Suc k) xs"
proof -
  have "\<forall>x \<in> set (take k xs @ drop (Suc k) xs). P x"
  proof
    fix x assume "x \<in> set (take k xs @ drop (Suc k) xs)"
    then consider "x \<in> set (take k xs)" | "x \<in> set (drop (Suc k) xs)" by auto
    then show "P x"
    proof cases
      case 1
      then obtain j where "j < length (take k xs)" "x = take k xs ! j"
        by (auto simp: in_set_conv_nth)
      then have "j < k" "j < length xs" "x = xs ! j" using k by simp_all
      with good show ?thesis by simp
    next
      case 2
      then obtain j where j: "j < length (drop (Suc k) xs)" "x = drop (Suc k) xs ! j"
        by (auto simp: in_set_conv_nth)
      then have "Suc k + j < length xs" "x = xs ! (Suc k + j)" by simp_all
      with good show ?thesis by simp
    qed
  qed
  then show ?thesis by simp
qed

lemma processBatch_documents:
  "documents (processBatch docs u) =
     map (\<lambda>(doc, env). projr (processDocument doc u env))
       (filter (\<lambda>(doc, env). \<not> isl (processDocument doc u env)) docs)"
  by (simp add: processBatch_def Let_def batch_loop_documents)

lemma processBatch_from_documents:
  "batch_combinedText (processBatch docs u) = combineDocumentContent (documents (processBatch docs u))
   \<and> totalWordCount (processBatch docs u) =
       sum_list (map pd_wordCount (documents (processBatch docs u)))"
  by (simp add: processBatch_def Let_def)

subsection \<open>The image loop when every callback returns\<close>

lemma images_loop_results:
  "\<forall>env \<in> set imgs. image_progress env = None \<Longrightarrow>
   length (results (images_loop m n i imgs b)) = length (results b) + length imgs
   \<and> (\<forall>j < length (results b). results (images_loop m n i imgs b) ! j = results b ! j)
   \<and> (\<forall>j < length imgs. \<exists>now s.
         (\<forall>r. returned (extractTextFromImage m (providers (imgs ! j)) now s) = Inr r \<longrightarrow>
              results (images_loop m n i imgs b) ! (length (results b) + j) = r)
       \<and> (\<forall>e. returned (extractTextFromImage m (providers (imgs ! j)) now s) = Inl e \<longrightarrow>
              results (images_loop m n i imgs b) ! (length (results b) + j) =
                failed_image_result (i + j) e))"
proof (induction imgs arbitrary: i b)
  case Nil
  then show ?case by simp
next
  case (Cons env rest)
  then have quiet: "image_progress env = None"
    and rest: "\<forall>env \<in> set rest. image_progress env = None" by simp_all
  define step where
    "step = extractTextFromImage m (providers env) (batch_clock b) (batch_service b)"
  define entry where
    "entry = (case returned step of Inr r \<Rightarrow> r | Inl e \<Rightarrow> failed_image_result i e)"
  obtain b' where b': "images_loop m n i (env # rest) b = images_loop m n (i + 1) rest b'"
    and res: "results b' = results b @ [entry]"
    using quiet by (cases "returned step") (auto simp: step_def entry_def Let_def)
  note IH = Cons.IH [OF rest, of "i + 1" b']
  have len: "length (results (images_loop m n i (env # rest) b)) =
      length (results b) + length (env # rest)"
    using IH res b' by simp
  have old: "results (images_loop m n i (env # rest) b) ! j = results b ! j"
    if "j < length (results b)" for j
    using IH res b' that by (simp add: nth_append)
  have first: "results (images_loop m n i (env # rest) b) ! length (results b) = entry"
    using IH res b' by (simp add: nth_append)
  have new: "\<exists>now s.
         (\<forall>r. returned (extractTextFromImage m (providers ((env # rest) ! j)) now s) = Inr r \<longrightarrow>
              results (images_loop m n i (env # rest) b) ! (length (results b) + j) = r)
       \<and> (\<forall>e. returned (extractTextFromImage m (providers ((env # rest) ! j)) now s) = Inl e \<longrightarrow>
              results (images_loop m n i (env # rest) b) ! (length (results b) + j) =
                failed_image_result (i + j) e)"
    if j: "j < length (env # rest)" for j
  proof (cases j)
    case 0
    have "(\<forall>r. returned step = Inr r \<longrightarrow>
              results (images_loop m n i (env # rest) b) ! (length (results b) + 0) = r)
       \<and> (\<forall>e. returned step = Inl e \<longrightarrow>
              results (images_loop m n i (env # rest) b) ! (length (results b) + 0) =
                failed_image_result (i + 0) e)"
      using first by (simp add: entry_def)
    then show ?thesis unfolding 0 step_def by (metis nth_Cons_0)
  next
    case (Suc j')
    with j have "j' < length rest" by simp
    with IH obtain now s where
      "(\<forall>r. returned (extractTextFromImage m (providers (rest ! j')) now s) = Inr r \<longrightarrow>
              results (images_loop m n (i + 1) rest b') ! (length (results b') + j') = r)
       \<and> (\<forall>e. returned (extractTextFromImage m (providers (rest ! j')) now s) = Inl e \<longrightarrow>
              results (images_loop m n (i + 1) rest b') ! (length (results b') + j') =
                failed_image_result (i + 1 + j') e)" by blast
    moreover have "length (results b') + j' = length (results b) + j" using res Suc by simp
    moreover have "i + 1 + j' = i + j" using Suc by simp
    moreover have "(env # rest) ! j = rest ! j'" using Suc by simp
    ultimately show ?thesis using b' by metis
  qed
  show ?case using len old new by blast
qed

lemma one_result_when_progress_returns:
  "\<forall>env \<in> set images. image_progress env = None \<Longrightarrow>
   length (results (extractTextFromImages images m now s)) = length images"
  using images_loop_results [of images m "length images" 0
      "\<lparr>results = [], batch_service = s, batch_clock = now\<rparr>"]
  by (simp add: extractTextFromImages_def)

subsection \<open>Stepping the loops\<close>

lemma pdf_page_loop_done:
  "\<not> pageNum < batchEnd \<Longrightarrow> pdf_page_loop u w n batchEnd pageNum st = st"
  by (subst pdf_page_loop.simps) simp

lemma pdf_page_loop_step:
  "pageNum < batchEnd \<Longrightarrow>
   pdf_page_loop u w n batchEnd pageNum st =
     pdf_page_loop u w n batchEnd (pageNum + 1)
       \<lparr>pages = pages st @ pushed (processPage u pageNum (w pageNum)),
        combinedText = combinedText st @ page_combined (processPage u pageNum (w pageNum)),
        ocr_log = ocr_log st @ page_requests (processPage u pageNum (w pageNum)),
        pdf_clock = pdf_clock st + page_elapsed (processPage u pageNum (w pageNum)) +
          (if int pageNum < int n - 1 then 500 else 0)\<rparr>"
  by (subst pdf_page_loop.simps) (simp add: Let_def)

lemma pdf_batch_loop_done:
  "\<not> batchStart < n \<Longrightarrow> pdf_batch_loop u w gc n batchStart st = st"
  by (subst pdf_batch_loop.simps) simp

lemma pdf_batch_loop_last:
  "batchStart < n \<Longrightarrow> n \<le> batchStart + batchSize \<Longrightarrow>
   pdf_batch_loop u w gc n batchStart st = pdf_page_loop u w n n batchStart st"
  by (subst pdf_batch_loop.simps) (simp add: Let_def min_def pdf_batch_loop_done)

lemma pptx_slide_loop_done:
  "\<not> i < length fs \<Longrightarrow> pptx_slide_loop u w fs i st = st"
  by (subst pptx_slide_loop.simps) simp

lemma pptx_slide_loop_step:
  "i < length fs \<Longrightarrow>
   pptx_slide_loop u w fs i st =
     pptx_slide_loop u w fs (i + 1)
       \<lparr>slides = slides st @ slide_pushed (processSlide u i (length fs) (w (fs ! i))),
        pptx_combinedText =
          pptx_combinedText st @ slide_combined (processSlide u i (length fs) (w (fs ! i))),
        pptx_log = pptx_log st @ slide_requests (processSlide u i (length fs) (w (fs ! i))),
        pptx_clock = pptx_clock st + slide_elapsed (processSlide u i (length fs) (w (fs ! i)))\<rparr>"
  by (subst pptx_slide_loop.simps) (simp add: Let_def)

lemma processPage_from_step:
  "rc \<le> maxRetries \<Longrightarrow>
   processPage_from u i w rc run =
     (case pageTry u i (w rc) rc run of
        (run1, None) \<Rightarrow> run1
      | (run1, Some pageError) \<Rightarrow>
          if rc + 1 > maxRetries then
            run1\<lparr>pushed := pushed run1 @ [errorPageInfo i pageError (page_elapsed run1)]\<rparr>
          else
            processPage_from u i w (rc + 1) (run1\<lparr>page_elapsed := page_elapsed run1 + 1000\<rparr>))"
  by (subst processPage_from.simps) simp

subsection \<open>The concrete documents, evaluated\<close>

lemma show_nat_1: "show_nat (Suc 0) = ''1''"
  by (simp add: show_nat.simps digit_char_def)

lemma scanned_attempt_processing:
  "pageProcessing True 0 scanned_attempt = (''Scanned lecture notes'', True, [scanned_request])"
proof -
  have "length (trim ''p. 1'') < 20" by (simp add: trim_def is_space_def)
  then show ?thesis
    by (simp add: pageProcessing_def structuralText_def scanned_attempt_def device_result_def
        scanned_request_def MIN_TEXT_LENGTH_def Let_def)
qed

lemma scanned_page_run:
  "processPage True 0 (\<lambda>retryCount. scanned_attempt) =
     \<lparr>pushed = [scanned_page],
      page_combined = [newline] @ ''=== Page 1 ==='' @ [newline] @ ''Scanned lecture notes'' @
                      [newline],
      page_requests = [scanned_request], page_elapsed = 900, page_attempts = 1\<rparr>"
proof -
  have t: "attempt_ms scanned_attempt < PAGE_TIMEOUT" and ms: "attempt_ms scanned_attempt = 900"
    and quiet: "progress scanned_attempt = None"
    by (simp_all add: scanned_attempt_def PAGE_TIMEOUT_def)
  have wc: "wordCount_of ''Scanned lecture notes'' = 3"
    by (simp add: wordCount_of_def is_space_def)
  show ?thesis
    unfolding processPage_def
    using t by (simp add: processPage_from_step pageTry_def scanned_attempt_processing
        pageInfo_def wc show_nat_1 ms quiet scanned_page_def)
qed

lemma scanned_pdf_state:
  "pdf_final_state True scanned_pdf 1 =
     \<lparr>pages = [scanned_page],
      combinedText = [newline] @ ''=== Page 1 ==='' @ [newline] @ ''Scanned lecture notes'' @
                     [newline],
      ocr_log = [scanned_request], pdf_clock = 900\<rparr>"
  by (simp add: pdf_final_state_def scanned_pdf_def pdf_batch_loop_last pdf_page_loop_step
      pdf_page_loop_done batchSize_def scanned_page_run)

lemma scanned_pdf_eval: "extractTextFromPDF scanned_pdf True = Inr scanned_pdf_result"
proof -
  have "trim ([newline] @ ''=== Page 1 ==='' @ [newline] @ ''Scanned lecture notes'' @ [newline]) =
      ''=== Page 1 ==='' @ [newline] @ ''Scanned lecture notes''"
    by (simp add: trim_def is_space_def newline_def)
  moreover have "pdfLoad scanned_pdf = Inr 1" by (simp add: scanned_pdf_def)
  ultimately show ?thesis using scanned_pdf_state
    by (simp add: extractTextFromPDF_def scanned_pdf_result_def scanned_page_def)
qed

lemma scanned_pdf_requests: "pdf_ocr_requests scanned_pdf True = [scanned_request]"
proof -
  have "pdfLoad scanned_pdf = Inr 1" by (simp add: scanned_pdf_def)
  then show ?thesis using scanned_pdf_state by (simp add: pdf_ocr_requests_def)
qed

lemma slow_attempt_processing:
  "pageProcessing False 0 slow_attempt = (''Chapter one of the lecture notes'', False, [])"
proof -
  have "\<not> length (trim ''Chapter one of the lecture notes'') < 20"
    by (simp add: trim_def is_space_def)
  then show ?thesis
    by (simp add: pageProcessing_def structuralText_def slow_attempt_def MIN_TEXT_LENGTH_def
        Let_def)
qed

lemma stuck_page_run:
  "processPage False 0 (\<lambda>retryCount. slow_attempt) =
     \<lparr>pushed = [stuck_page], page_combined = [], page_requests = [],
      page_elapsed = 137000, page_attempts = 3\<rparr>"
proof -
  have t: "\<not> attempt_ms slow_attempt < PAGE_TIMEOUT"
    by (simp add: slow_attempt_def PAGE_TIMEOUT_def)
  have attempt: "pageTry False 0 slow_attempt rc run =
      (\<lparr>pushed = pushed run, page_combined = page_combined run,
        page_requests = page_requests run, page_elapsed = page_elapsed run + 45000,
        page_attempts = rc + 1\<rparr>, Some (Error ''Page processing timeout''))" for rc run
    using t by (simp add: pageTry_def slow_attempt_processing PAGE_TIMEOUT_def)
  show ?thesis
    unfolding processPage_def
    by (simp add: processPage_from_step attempt maxRetries_def errorPageInfo_def show_nat_1
        stuck_page_def)
qed

lemma stuck_pdf_eval: "extractTextFromPDF stuck_pdf False = Inr stuck_pdf_result"
proof -
  have st: "pdf_final_state False stuck_pdf 1 =
     \<lparr>pages = [stuck_page], combinedText = [], ocr_log = [], pdf_clock = 137000\<rparr>"
    by (simp add: pdf_final_state_def stuck_pdf_def pdf_batch_loop_last pdf_page_loop_step
        pdf_page_loop_done batchSize_def stuck_page_run)
  have "pdfLoad stuck_pdf = Inr 1" by (simp add: stuck_pdf_def)
  then show ?thesis using st
    by (simp add: extractTextFromPDF_def stuck_pdf_result_def stuck_page_def trim_def)
qed

lemma noisy_attempt_processing:
  "pageProcessing False 0 noisy_attempt = (''Chapter one of the lecture notes'', False, [])"
proof -
  have "\<not> length (trim ''Chapter one of the lecture notes'') < 20"
    by (simp add: trim_def is_space_def)
  then show ?thesis
    by (simp add: pageProcessing_def structuralText_def noisy_attempt_def MIN_TEXT_LENGTH_def
        Let_def)
qed

lemma noisy_page_run:
  "pushed (processPage False 0 (\<lambda>retryCount. noisy_attempt)) =
     [chapter_page 900, chapter_page 2800, chapter_page 4700, noisy_error_page]
   \<and> page_attempts (processPage False 0 (\<lambda>retryCount. noisy_attempt)) = 3"
proof -
  have wc: "wordCount_of ''Chapter one of the lecture notes'' = 6"
    by (simp add: wordCount_of_def is_space_def)
  have attempt: "pageTry False 0 noisy_attempt rc run =
      (\<lparr>pushed = pushed run @ [chapter_page (page_elapsed run + 900)],
        page_combined = page_combined run @ [newline] @ ''=== Page 1 ==='' @ [newline] @
                        ''Chapter one of the lecture notes'' @ [newline],
        page_requests = page_requests run, page_elapsed = page_elapsed run + 900,
        page_attempts = rc + 1\<rparr>, Some (Error ''progress failed''))" for rc run
  proof -
    have fields: "attempt_ms noisy_attempt = 900"
      "progress noisy_attempt = Some (Error ''progress failed'')"
      by (simp_all add: noisy_attempt_def)
    show ?thesis
      by (simp add: pageTry_def noisy_attempt_processing fields PAGE_TIMEOUT_def
          pageInfo_def chapter_page_def wc show_nat_1 Let_def)
  qed
  show ?thesis
    unfolding processPage_def
    by (simp add: processPage_from_step attempt maxRetries_def errorPageInfo_def show_nat_1
        noisy_error_page_def)
qed

lemma noisy_pdf_pages:
  "map_sum id (\<lambda>r. (totalPages r, pdf_pages r)) (extractTextFromPDF noisy_pdf False) =
     Inr (1, [chapter_page 900, chapter_page 2800, chapter_page 4700, noisy_error_page])"
proof -
  have "pages (pdf_final_state False noisy_pdf 1) =
      [chapter_page 900, chapter_page 2800, chapter_page 4700, noisy_error_page]"
    using noisy_page_run by (simp add: pdf_final_pages noisy_pdf_def)
  moreover have "pdfLoad noisy_pdf = Inr 1" by (simp add: noisy_pdf_def)
  ultimately show ?thesis by (simp add: extractTextFromPDF_def Let_def)
qed

lemma deck_slideFiles:
  "slideFiles_of [''ppt/presentation.xml'', ''ppt/slides/slide1.xml''] = [''ppt/slides/slide1.xml'']"
  by (simp add: slideFiles_of_def endsWith_def)

lemma deck_state:
  "pptx_final_state u (deck_of slide) [''ppt/presentation.xml'', ''ppt/slides/slide1.xml''] =
     \<lparr>slides = slide_pushed (processSlide u 0 (Suc 0) slide),
      pptx_combinedText = slide_combined (processSlide u 0 (Suc 0) slide),
      pptx_log = slide_requests (processSlide u 0 (Suc 0) slide),
      pptx_clock = slide_elapsed (processSlide u 0 (Suc 0) slide)\<rparr>"
  by (simp add: pptx_final_state_def deck_slideFiles deck_of_def pptx_slide_loop_step
      pptx_slide_loop_done)

lemma deck_eval:
  "extractTextFromPPTX (deck_of slide) u =
     Inr \<lparr>pptx_slides = slide_pushed (processSlide u 0 (Suc 0) slide),
          pptx_text = trim (slide_combined (processSlide u 0 (Suc 0) slide)),
          totalSlides = 1,
          pptx_totalWordCount = sum_list (map slide_wordCount (slide_pushed (processSlide u 0 (Suc 0) slide))),
          pptx_totalProcessingTime = slide_elapsed (processSlide u 0 (Suc 0) slide)\<rparr>"
proof -
  have "zipEntries (deck_of slide) = Inr [''ppt/presentation.xml'', ''ppt/slides/slide1.xml'']"
    by (simp add: deck_of_def)
  then show ?thesis using deck_state [of u slide]
    by (simp add: extractTextFromPPTX_def deck_slideFiles)
qed

lemma deck_requests:
  "pptx_ocr_requests (deck_of slide) u = slide_requests (processSlide u 0 (Suc 0) slide)"
proof -
  have "zipEntries (deck_of slide) = Inr [''ppt/presentation.xml'', ''ppt/slides/slide1.xml'']"
    by (simp add: deck_of_def)
  then show ?thesis using deck_state [of u slide] by (simp add: pptx_ocr_requests_def)
qed

lemma image_slide_try:
  "slideTry False (Suc 0) image_slide = (Inr (''Scanned lecture notes'', True), [slide_request])"
  by (simp add: slideTry_def image_slide_def device_result_def slide_request_def trim_def
      MIN_TEXT_LENGTH_def Let_def)

lemma image_slide_run:
  "processSlide False 0 (Suc 0) image_slide =
     \<lparr>slide_pushed = [image_slide_info],
      slide_combined = [newline] @ ''=== Slide 1 ==='' @ [newline] @ ''Scanned lecture notes'' @
                       [newline],
      slide_requests = [slide_request], slide_elapsed = 700\<rparr>"
proof -
  have wc: "wordCount_of ''Scanned lecture notes'' = 3"
    by (simp add: wordCount_of_def is_space_def)
  have ms: "slide_ms image_slide = 700" "slide_progress image_slide = None"
    by (simp_all add: image_slide_def)
  show ?thesis
    by (simp add: processSlide_def image_slide_try slideInfo_def wc ms show_nat_1
        image_slide_info_def)
qed

lemma image_deck_eval: "extractTextFromPPTX (deck_of image_slide) False = Inr image_deck_result"
proof -
  have "trim ([newline] @ ''=== Slide 1 ==='' @ [newline] @ ''Scanned lecture notes'' @ [newline]) =
      ''=== Slide 1 ==='' @ [newline] @ ''Scanned lecture notes''"
    by (simp add: trim_def is_space_def newline_def)
  then show ?thesis
    by (simp add: deck_eval image_slide_run image_deck_result_def image_slide_info_def)
qed

lemma image_deck_requests: "pptx_ocr_requests (deck_of image_slide) False = [slide_request]"
  by (simp add: deck_requests image_slide_run)

lemma slow_slide_try:
  "slideTry False (Suc 0) slow_slide = (Inr (''Quarterly results and outlook'', False), [])"
proof -
  have "\<not> length (trim ''Quarterly results and outlook'') < 20"
    by (simp add: trim_def is_space_def)
  then show ?thesis
    by (simp add: slideTry_def slow_slide_def MIN_TEXT_LENGTH_def Let_def)
qed

lemma slow_deck_eval: "extractTextFromPPTX (deck_of slow_slide) False = Inr slow_deck_result"
proof -
  have wc: "wordCount_of ''Quarterly results and outlook'' = 4"
    by (simp add: wordCount_of_def is_space_def)
  have ms: "slide_ms slow_slide = 60000" "slide_progress slow_slide = None"
    by (simp_all add: slow_slide_def)
  have run: "processSlide False 0 (Suc 0) slow_slide =
     \<lparr>slide_pushed = [slow_slide_info],
      slide_combined = [newline] @ ''=== Slide 1 ==='' @ [newline] @
                       ''Quarterly results and outlook'' @ [newline],
      slide_requests = [], slide_elapsed = 60000\<rparr>"
    by (simp add: processSlide_def slow_slide_try slideInfo_def wc ms show_nat_1
        slow_slide_info_def)
  have "trim ([newline] @ ''=== Slide 1 ==='' @ [newline] @ ''Quarterly results and outlook'' @
              [newline]) = ''=== Slide 1 ==='' @ [newline] @ ''Quarterly results and outlook''"
    by (simp add: trim_def is_space_def newline_def)
  then show ?thesis
    by (simp add: deck_eval run slow_deck_result_def slow_slide_info_def)
qed

lemma broken_slide_try:
  "slideTry False (Suc 0) broken_slide = (Inl (Error ''Corrupted zip''), [])"
  by (simp add: slideTry_def broken_slide_def)

lemma broken_deck_eval: "extractTextFromPPTX (deck_of broken_slide) False = Inr broken_deck_result"
proof -
  have ms: "slide_ms broken_slide = 5" by (simp add: broken_slide_def)
  have run: "processSlide False 0 (Suc 0) broken_slide =
     \<lparr>slide_pushed = [broken_slide_info], slide_combined = [], slide_requests = [],
      slide_elapsed = 5\<rparr>"
    by (simp add: processSlide_def broken_slide_try errorSlideInfo_def ms show_nat_1
        error_to_string_def broken_slide_info_def)
  show ?thesis
    by (simp add: deck_eval run broken_deck_result_def broken_slide_info_def trim_def)
qed

lemma noisy_slide_try:
  "slideTry False (Suc 0) noisy_slide = (Inr (''Quarterly results and outlook'', False), [])"
proof -
  have "\<not> length (trim ''Quarterly results and outlook'') < 20"
    by (simp add: trim_def is_space_def)
  then show ?thesis
    by (simp add: slideTry_def noisy_slide_def MIN_TEXT_LENGTH_def Let_def)
qed

lemma noisy_deck_slides:
  "map_sum id (\<lambda>r. (totalSlides r, pptx_slides r))
     (extractTextFromPPTX (deck_of noisy_slide) False) =
     Inr (1, [noisy_slide_info, noisy_error_slide])"
proof -
  have wc: "wordCount_of ''Quarterly results and outlook'' = 4"
    by (simp add: wordCount_of_def is_space_def)
  have ms: "slide_ms noisy_slide = 40"
    "slide_progress noisy_slide = Some (Error ''progress failed'')"
    by (simp_all add: noisy_slide_def)
  have "slide_pushed (processSlide False 0 (Suc 0) noisy_slide) =
      [noisy_slide_info, noisy_error_slide]"
    by (simp add: processSlide_def noisy_slide_try slideInfo_def errorSlideInfo_def wc ms
        show_nat_1 error_to_string_def noisy_slide_info_def noisy_error_slide_def)
  then show ?thesis by (simp add: deck_eval)
qed

subsection \<open>The concrete requests and batches, evaluated\<close>

lemma rate_limited_request:
  "performOCR (request_with rate_limited) =
     Inl (Error ''Mistral API rate limit: 429. Retry after 5000ms'')"
  by (simp add: performOCR_def request_with_def rate_limited_def response_ok_def waitTime_def
      show_number_def show_nat.simps digit_char_def)

lemma server_error_request:
  "performOCR (request_with server_error) =
     Inl (Error ''Mistral OCR API error: 500 Internal Server Error. boom'')"
  by (simp add: performOCR_def request_with_def server_error_def response_ok_def
      show_nat.simps digit_char_def)

lemma success_request: "performOCR (request_with success_response) = Inr ''Hello''"
  by (simp add: performOCR_def request_with_def success_response_def response_ok_def)

lemma rate_limit_message:
  "includes_str ''Mistral API rate limit: 429. Retry after 5000ms'' ''429''"
  by simp

lemma server_error_message:
  "\<not> includes_str ''Mistral OCR API error: 500 Internal Server Error. boom'' ''429''"
  by simp

lemma local_recognition:
  "Offline_extractTextFromImage remote_up =
     \<lparr>off_text = ''hello'', off_confidence = 1 / 2, off_processingTime = 50\<rparr>"
  "Offline_extractTextFromImage remote_down =
     \<lparr>off_text = ''hello'', off_confidence = 1 / 2, off_processingTime = 50\<rparr>"
  "Offline_extractTextFromImage both_down =
     \<lparr>off_text = [], off_confidence = 0, off_processingTime = 50\<rparr>"
  by (simp_all add: Offline_extractTextFromImage_def recognizeOnDevice_def remote_up_def
      remote_down_def both_down_def calculateOverallConfidence_def)

lemma both_down_call:
  "returned (extractTextFromImage ModeAuto both_down 1000 initial_service) = Inr empty_result"
proof -
  have env: "mistral_outcome both_down = Inl (Error ''Network request failed'')"
    "mistral_ms both_down = 100" "device_ms both_down = 50"
    by (simp_all add: both_down_def)
  show ?thesis
    by (simp add: extractTextFromImage_def performOnlineOCR_def performOfflineOCR_returns
        local_recognition env initial_service_def empty_result_def Let_def)
qed

lemma noisy_batch:
  "results (extractTextFromImages [noisy_image] ModeAuto 0 initial_service) =
     [remote_result, placeholder_result]"
proof -
  have call: "returned (extractTextFromImage ModeAuto remote_up 0 initial_service) =
      Inr remote_result"
    by (simp add: extractTextFromImage_def performOnlineOCR_def initial_service_def
        remote_up_def remote_result_def Let_def)
  show ?thesis
    by (simp add: extractTextFromImages_def noisy_image_def call Let_def failed_image_result_def
        show_nat_1 error_to_string_def placeholder_result_def)
qed

lemma quiet_batch:
  "results (extractTextFromImages [quiet_image] ModeAuto 0 initial_service) = [remote_result]"
proof -
  have call: "returned (extractTextFromImage ModeAuto remote_up 0 initial_service) =
      Inr remote_result"
    by (simp add: extractTextFromImage_def performOnlineOCR_def initial_service_def
        remote_up_def remote_result_def Let_def)
  show ?thesis
    by (simp add: extractTextFromImages_def quiet_image_def call Let_def)
qed

lemma notes_eval: "processDocument notes_doc u readable_env = Inr notes_processed"
proof -
  have wc: "wordCount_of ''two words'' = 2" by (simp add: wordCount_of_def is_space_def)
  show ?thesis
    by (simp add: processDocument_def processTextFile_def notes_doc_def readable_env_def
        processed_def notes_processed_def wc Let_def)
qed

lemma archive_kind: "documentKind (doc_type archive_doc) = KindUnsupported"
  by (simp add: documentKind_def archive_doc_def)

lemma archive_eval:
  "processDocument archive_doc u archive_env =
     Inl (Error ''Unsupported document type: application/zip'')"
  using unsupported_type [OF archive_kind] by (simp add: archive_doc_def)

lemma deck_kind: "documentKind (doc_type deck_doc) = KindPresentation"
  by (simp add: documentKind_def deck_doc_def)

lemma fallback_words: "wordCount_of (pptx_fallbackText ''file:///docs/deck.pptx'') = 49"
  by (simp add: wordCount_of_def pptx_fallbackText_def last_segment_def is_space_def
      newline_def)

lemma deck_doc_eval: "processDocument deck_doc u corrupt_deck_env = Inr deck_processed"
  using presentation_fallback [OF deck_kind, of corrupt_deck_env _ u]
  by (simp add: corrupt_deck_env_def readable_env_def deck_doc_def processed_def
      deck_processed_def fallback_words)

section \<open>The claims\<close>

subsection \<open>C1: cooldown state machine\<close>

text \<open>
  Claim C1. Starting from a service that is not in cooldown and has a clean failure
  counter, two consecutive calls in \<open>auto\<close> mode whose remote attempt fails both try the
  remote provider and then the local one, and leave the service in cooldown until five
  minutes after the second remote failure. Every later \<open>auto\<close> call made before that
  expiry goes to the local provider only, without attempting the remote provider. At the
  first call whose wall-clock time is at or after the expiry the service leaves cooldown,
  counts failures from zero again (so the counter is 0 after a remote success and 1 after
  a remote failure), and attempts the remote provider first. (A call of any other mode at
  that time leaves cooldown and resets the counter as well; which provider it then calls
  is decided by its mode.)
\<close>

theorem cooldown_state_machine:
  assumes normal: "\<not> isTemporarilyOffline s0 \<and> consecutiveFailures s0 = 0"
    and fail1: "mistral_outcome e1 = Inl err1"
    and fail2: "mistral_outcome e2 = Inl err2"
    and s2: "s2 = service_after (run_calls [(ModeAuto, e1, t1), (ModeAuto, e2, t2)] s0) s0"
    and during: "\<forall>(m, env, now) \<in> set during. m = ModeAuto \<and> now < offlineUntil s2"
    and s3: "s3 = service_after (run_calls during s2) s2"
    and expired: "offlineUntil s2 \<le> now"
    and after: "after = extractTextFromImage ModeAuto e now s3"
  shows "map called (run_calls [(ModeAuto, e1, t1), (ModeAuto, e2, t2)] s0) =
           [ [RemoteProvider, LocalProvider], [RemoteProvider, LocalProvider] ]
       \<and> isTemporarilyOffline s2
       \<and> offlineUntil s2 = t2 + int (mistral_ms e2) + 5 * 60 * 1000
       \<and> (\<forall>step \<in> set (run_calls during s2). called step = [LocalProvider])
       \<and> hd (called after) = RemoteProvider
       \<and> \<not> isTemporarilyOffline (service after)
       \<and> consecutiveFailures (service after) = (if isl (mistral_outcome e) then 1 else 0)
       \<and> (\<forall>m. \<not> isTemporarilyOffline (service (extractTextFromImage m e now s3))
              \<and> (m \<noteq> ModeAuto \<longrightarrow>
                    consecutiveFailures (service (extractTextFromImage m e now s3)) = 0))"
proof -
  have s2_eq: "s2 = s0\<lparr>consecutiveFailures := 2, isTemporarilyOffline := True,
                         offlineUntil := t2 + int (mistral_ms e2) + 300000\<rparr>"
    using two_failures(2) [of s0 e1 err1 e2 err2 t1 t2] normal fail1 fail2 s2 by simp
  then have off: "isTemporarilyOffline s2" by simp
  from during have "\<forall>(m, env, now) \<in> set during. now < offlineUntil s2" by auto
  with off have cool:
    "(\<forall>step \<in> set (run_calls during s2). called step = [LocalProvider] \<and> service step = s2)
      \<and> service_after (run_calls during s2) s2 = s2"
    by (rule run_calls_cooldown)
  with s3 have s3_eq: "s3 = s2" by simp
  have "map called (run_calls [(ModeAuto, e1, t1), (ModeAuto, e2, t2)] s0) =
           [ [RemoteProvider, LocalProvider], [RemoteProvider, LocalProvider] ]"
    using two_failures(1) [of s0 e1 err1 e2 err2 t1 t2] normal fail1 fail2 by simp
  moreover have "offlineUntil s2 = t2 + int (mistral_ms e2) + 5 * 60 * 1000"
    using s2_eq by simp
  moreover have "hd (called after) = RemoteProvider"
    using expiry_call(2) [OF off expired, of ModeAuto e] after s3_eq by simp
  moreover have "\<not> isTemporarilyOffline (service after)"
    using expiry_call(1) [OF off expired, of ModeAuto e] after s3_eq by simp
  moreover have "consecutiveFailures (service after) = (if isl (mistral_outcome e) then 1 else 0)"
    using expiry_call(3) [OF off expired, of ModeAuto e] after s3_eq by simp
  moreover have "\<forall>m. \<not> isTemporarilyOffline (service (extractTextFromImage m e now s3))
              \<and> (m \<noteq> ModeAuto \<longrightarrow>
                    consecutiveFailures (service (extractTextFromImage m e now s3)) = 0)"
    using expiry_call(1,3) [OF off expired, of _ e] s3_eq by simp
  ultimately show ?thesis using off cool by blast
qed

theorem cooldown_state_machine_witness:
  "\<not> isTemporarilyOffline initial_service \<and> consecutiveFailures initial_service = 0
   \<and> mistral_outcome remote_down = Inl (Error ''Network request failed'')
   \<and> cooling_service =
       service_after (run_calls [(ModeAuto, remote_down, 1000), (ModeAuto, remote_down, 2000)]
                        initial_service) initial_service
   \<and> 3000 < offlineUntil cooling_service \<and> 302099 < offlineUntil cooling_service
   \<and> offlineUntil cooling_service \<le> 302100
   \<and> map called (run_calls [(ModeAuto, remote_down, 1000), (ModeAuto, remote_down, 2000)]
                    initial_service) =
       [ [RemoteProvider, LocalProvider], [RemoteProvider, LocalProvider] ]
   \<and> offlineUntil cooling_service = 2000 + 100 + 5 * 60 * 1000
   \<and> map called (run_calls [(ModeAuto, remote_up, 3000), (ModeAuto, remote_up, 302099)]
                    cooling_service) = [ [LocalProvider], [LocalProvider] ]
   \<and> called (extractTextFromImage ModeAuto remote_up 302100 cooling_service) = [RemoteProvider]
   \<and> \<not> isTemporarilyOffline
         (service (extractTextFromImage ModeAuto remote_up 302100 cooling_service))
   \<and> consecutiveFailures
         (service (extractTextFromImage ModeAuto remote_up 302100 cooling_service)) = 0"
proof -
  have h1: "\<not> isTemporarilyOffline initial_service \<and> consecutiveFailures initial_service = 0"
    by (simp add: initial_service_def)
  have h2: "mistral_outcome remote_down = Inl (Error ''Network request failed'')"
    by (simp add: remote_down_def)
  have h3: "cooling_service =
       service_after (run_calls [(ModeAuto, remote_down, 1000), (ModeAuto, remote_down, 2000)]
                        initial_service) initial_service"
    by (simp add: cooling_service_def initial_service_def remote_down_def service_after_def
        extractTextFromImage_def performOnlineOCR_def performOfflineOCR_def Offline_extractTextFromImage_def
      recognizeOnDevice_def calculateOverallConfidence_def Let_def
        MAX_CONSECUTIVE_FAILURES_def OFFLINE_COOLDOWN_def)
  have h4: "\<forall>(m, env, now) \<in> set [(ModeAuto, remote_up, 3000), (ModeAuto, remote_up, 302099)].
              m = ModeAuto \<and> now < offlineUntil cooling_service"
    by (simp add: cooling_service_def)
  have calls: "map called (run_calls [(ModeAuto, remote_up, 3000), (ModeAuto, remote_up, 302099)]
                    cooling_service) = [ [LocalProvider], [LocalProvider] ]"
    and h5: "cooling_service =
       service_after (run_calls [(ModeAuto, remote_up, 3000), (ModeAuto, remote_up, 302099)]
                        cooling_service) cooling_service"
    by (simp_all add: cooling_service_def service_after_def extractTextFromImage_def Let_def)
  have h6: "offlineUntil cooling_service \<le> 302100"
    by (simp add: cooling_service_def)
  have only_remote:
    "called (extractTextFromImage ModeAuto remote_up 302100 cooling_service) = [RemoteProvider]"
    by (simp add: cooling_service_def remote_up_def extractTextFromImage_def
        performOnlineOCR_def Let_def)
  note main = cooldown_state_machine [OF h1 h2 h2 h3 h4 h5 h6 refl, of remote_up]
  have up: "\<not> isl (mistral_outcome remote_up)" by (simp add: remote_up_def)
  show ?thesis using h1 h2 h3 h4 h6 calls only_remote main up
    by (simp add: remote_down_def)
qed

subsection \<open>C2: explicit modes\<close>

text \<open>
  Claim C2, as stated, fails: the cooldown check comes before the mode is looked at.
  During an active cooldown a request with mode \<open>online\<close> never reaches the remote
  provider, and a request with mode \<open>offline\<close> is answered with \<open>fallbackUsed = true\<close>.
\<close>

theorem explicit_modes_in_cooldown_counterexample:
  "called (extractTextFromImage ModeOnline remote_up 3000 cooling_service) = [LocalProvider]
   \<and> returned (extractTextFromImage ModeOnline remote_up 3000 cooling_service) =
       Inr \<lparr>ocr_text = ''hello'', source = Offline, confidence = 1 / 2, processingTime = 50,
            fallbackUsed = True\<rparr>
   \<and> returned (extractTextFromImage ModeOffline remote_up 3000 cooling_service) =
       Inr \<lparr>ocr_text = ''hello'', source = Offline, confidence = 1 / 2, processingTime = 50,
            fallbackUsed = True\<rparr>"
  by (simp add: cooling_service_def remote_up_def extractTextFromImage_def
      performOfflineOCR_def Offline_extractTextFromImage_def
      recognizeOnDevice_def calculateOverallConfidence_def Let_def)

text \<open>
  Claim C2, amended. When no cooldown is active at the time of the call (none was entered,
  or its expiry has passed), a request with mode \<open>online\<close> calls the remote provider only
  and propagates its error to the caller, and a request with mode \<open>offline\<close> calls the
  local provider only and returns a result with source \<open>offline\<close> and
  \<open>fallbackUsed = false\<close>. During an active cooldown a request of any mode calls the local
  provider only, and its result has source \<open>offline\<close> and \<open>fallbackUsed = true\<close>.
\<close>

theorem explicit_modes:
  "(if isTemporarilyOffline s \<and> now < offlineUntil s
    then called (extractTextFromImage m env now s) = [LocalProvider]
       \<and> (\<forall>r. returned (extractTextFromImage m env now s) = Inr r \<longrightarrow>
             source r = Offline \<and> fallbackUsed r)
    else called (extractTextFromImage ModeOnline env now s) = [RemoteProvider]
       \<and> (\<forall>e. mistral_outcome env = Inl e \<longrightarrow>
             returned (extractTextFromImage ModeOnline env now s) = Inl e)
       \<and> called (extractTextFromImage ModeOffline env now s) = [LocalProvider]
       \<and> (\<forall>r. returned (extractTextFromImage ModeOffline env now s) = Inr r \<longrightarrow>
             source r = Offline \<and> \<not> fallbackUsed r))"
  by (auto simp: extractTextFromImage_def performOnlineOCR_def performOfflineOCR_def Offline_extractTextFromImage_def
      recognizeOnDevice_def calculateOverallConfidence_def Let_def
      split: sum.splits)

theorem explicit_modes_witness:
  "\<not> (isTemporarilyOffline initial_service \<and> 1000 < offlineUntil initial_service)
   \<and> called (extractTextFromImage ModeOnline remote_down 1000 initial_service) = [RemoteProvider]
   \<and> mistral_outcome remote_down = Inl (Error ''Network request failed'')
   \<and> returned (extractTextFromImage ModeOnline remote_down 1000 initial_service) =
       Inl (Error ''Network request failed'')
   \<and> called (extractTextFromImage ModeOffline remote_down 1000 initial_service) = [LocalProvider]
   \<and> returned (extractTextFromImage ModeOffline remote_down 1000 initial_service) =
       Inr \<lparr>ocr_text = ''hello'', source = Offline, confidence = 1 / 2, processingTime = 50,
            fallbackUsed = False\<rparr>
   \<and> isTemporarilyOffline cooling_service \<and> 3000 < offlineUntil cooling_service
   \<and> called (extractTextFromImage ModeOnline remote_up 3000 cooling_service) = [LocalProvider]"
proof -
  have clear: "\<not> (isTemporarilyOffline initial_service \<and> 1000 < offlineUntil initial_service)"
    by (simp add: initial_service_def)
  have down: "mistral_outcome remote_down = Inl (Error ''Network request failed'')"
    by (simp add: remote_down_def)
  have local: "returned (extractTextFromImage ModeOffline remote_down 1000 initial_service) =
       Inr \<lparr>ocr_text = ''hello'', source = Offline, confidence = 1 / 2, processingTime = 50,
            fallbackUsed = False\<rparr>"
    by (simp add: initial_service_def remote_down_def extractTextFromImage_def
        performOfflineOCR_def Offline_extractTextFromImage_def
      recognizeOnDevice_def calculateOverallConfidence_def Let_def)
  have cooling: "isTemporarilyOffline cooling_service \<and> 3000 < offlineUntil cooling_service"
    by (simp add: cooling_service_def)
  from explicit_modes [of initial_service 1000 ModeOnline remote_down] clear
  have outside:
    "called (extractTextFromImage ModeOnline remote_down 1000 initial_service) = [RemoteProvider]
     \<and> (\<forall>e. mistral_outcome remote_down = Inl e \<longrightarrow>
           returned (extractTextFromImage ModeOnline remote_down 1000 initial_service) = Inl e)
     \<and> called (extractTextFromImage ModeOffline remote_down 1000 initial_service) = [LocalProvider]"
    by simp
  from explicit_modes [of cooling_service 3000 ModeOnline remote_up] cooling
  have inside:
    "called (extractTextFromImage ModeOnline remote_up 3000 cooling_service) = [LocalProvider]"
    by simp
  show ?thesis using clear down local cooling outside inside by simp
qed

subsection \<open>C3: failure counter and cooldown flag\<close>

text \<open>
  Claim C3, as stated, fails twice. After one remote failure in \<open>auto\<close> mode the counter
  is 1; a successful remote call in \<open>online\<close> mode then leaves it at 1. And
  \<open>forceOfflineMode\<close> turns the cooldown flag on while the counter is 0.
\<close>

theorem failure_counter_counterexample:
  "service (extractTextFromImage ModeAuto remote_down 1000 initial_service) = one_failure_service
   \<and> called (extractTextFromImage ModeOnline remote_up 2000 one_failure_service) = [RemoteProvider]
   \<and> returned (extractTextFromImage ModeOnline remote_up 2000 one_failure_service) =
       Inr \<lparr>ocr_text = ''Hello world'', source = Mistral, confidence = 9 / 10,
            processingTime = 100, fallbackUsed = False\<rparr>
   \<and> consecutiveFailures
       (service (extractTextFromImage ModeOnline remote_up 2000 one_failure_service)) = 1
   \<and> isTemporarilyOffline (forceOfflineMode 300000 1000 initial_service)
   \<and> consecutiveFailures (forceOfflineMode 300000 1000 initial_service) = 0"
  by (simp add: initial_service_def one_failure_service_def remote_down_def remote_up_def
      extractTextFromImage_def performOnlineOCR_def performOfflineOCR_def Offline_extractTextFromImage_def
      recognizeOnDevice_def calculateOverallConfidence_def forceOfflineMode_def
      MAX_CONSECUTIVE_FAILURES_def Let_def)

text \<open>
  Claim C3, amended. A successful remote call in \<open>auto\<close> mode resets
  \<open>consecutiveFailures\<close> to 0; a call in \<open>online\<close> mode leaves the static fields of a
  service that is not in cooldown as they are, whether the remote call succeeds or fails.
  A call of \<open>extractTextFromImage\<close> turns the cooldown flag on only in \<open>auto\<close> mode, on a
  remote failure that brings \<open>consecutiveFailures\<close> to the threshold of 2 or more.
  \<open>forceOfflineMode\<close> turns the flag on whatever the counter, and leaves the counter as
  it is.
\<close>

theorem failure_counter:
  "(RemoteProvider \<in> set (called (extractTextFromImage ModeAuto env now s))
      \<and> \<not> isl (mistral_outcome env)
      \<longrightarrow> consecutiveFailures (service (extractTextFromImage ModeAuto env now s)) = 0)
   \<and> (\<not> isTemporarilyOffline s
        \<and> isTemporarilyOffline (service (extractTextFromImage m env now s))
      \<longrightarrow> m = ModeAuto \<and> isl (mistral_outcome env)
         \<and> consecutiveFailures (service (extractTextFromImage m env now s)) \<ge> 2
         \<and> consecutiveFailures (service (extractTextFromImage m env now s)) =
             consecutiveFailures s + 1)
   \<and> (\<not> isTemporarilyOffline s
      \<longrightarrow> service (extractTextFromImage ModeOnline env now s) = s)
   \<and> isTemporarilyOffline (forceOfflineMode durationMs now s)
   \<and> consecutiveFailures (forceOfflineMode durationMs now s) = consecutiveFailures s"
  by (cases m; auto simp: extractTextFromImage_def performOnlineOCR_def performOfflineOCR_def Offline_extractTextFromImage_def
      recognizeOnDevice_def calculateOverallConfidence_def
      forceOfflineMode_def Let_def MAX_CONSECUTIVE_FAILURES_def split: sum.splits if_splits)

theorem failure_counter_witness:
  "RemoteProvider \<in> set (called (extractTextFromImage ModeAuto remote_up 2000 one_failure_service))
   \<and> \<not> isl (mistral_outcome remote_up)
   \<and> consecutiveFailures
       (service (extractTextFromImage ModeAuto remote_up 2000 one_failure_service)) = 0
   \<and> \<not> isTemporarilyOffline one_failure_service
   \<and> isTemporarilyOffline
       (service (extractTextFromImage ModeAuto remote_down 2000 one_failure_service))
   \<and> isl (mistral_outcome remote_down)
   \<and> consecutiveFailures
       (service (extractTextFromImage ModeAuto remote_down 2000 one_failure_service)) = 2
   \<and> service (extractTextFromImage ModeOnline remote_down 2000 one_failure_service) =
       one_failure_service"
proof -
  have a1: "RemoteProvider \<in>
      set (called (extractTextFromImage ModeAuto remote_up 2000 one_failure_service))"
    by (simp add: one_failure_service_def remote_up_def extractTextFromImage_def
        performOnlineOCR_def Let_def)
  have a2: "\<not> isl (mistral_outcome remote_up)" by (simp add: remote_up_def)
  have b1: "\<not> isTemporarilyOffline one_failure_service"
    by (simp add: one_failure_service_def)
  have b2: "isTemporarilyOffline
       (service (extractTextFromImage ModeAuto remote_down 2000 one_failure_service))"
    by (simp add: one_failure_service_def remote_down_def extractTextFromImage_def
        performOnlineOCR_def performOfflineOCR_def Offline_extractTextFromImage_def
      recognizeOnDevice_def calculateOverallConfidence_def MAX_CONSECUTIVE_FAILURES_def Let_def)
  have c: "consecutiveFailures one_failure_service = 1"
    by (simp add: one_failure_service_def)
  from failure_counter [of remote_up 2000 one_failure_service ModeAuto] a1 a2
  have reset: "consecutiveFailures
       (service (extractTextFromImage ModeAuto remote_up 2000 one_failure_service)) = 0"
    by blast
  from failure_counter [of remote_down 2000 one_failure_service ModeAuto] b1 b2 c
  have entered: "isl (mistral_outcome remote_down)
     \<and> consecutiveFailures
         (service (extractTextFromImage ModeAuto remote_down 2000 one_failure_service)) = 2
     \<and> service (extractTextFromImage ModeOnline remote_down 2000 one_failure_service) =
         one_failure_service"
    by simp
  show ?thesis using a1 a2 b1 b2 reset entered by simp
qed

subsection \<open>C4: retry policy of the remote provider\<close>

text \<open>
  What the retry loop does do: a rate-limit error is retried after 2000 ms and then after
  4000 ms, three invocations at most; an error without \<open>429\<close> in its message that comes
  from the first invocation is thrown at once.
\<close>

lemma rate_limit_backoff:
  assumes "operation 0 = Inl e0" "includes_str (message e0) ''429''"
    and "operation 1 = Inl e1" "includes_str (message e1) ''429''"
    and "operation 2 = Inr v"
  shows "executeWithRetry operation =
           \<lparr>retry_outcome = Inr v, operation_calls = 3, backoff_delays = [2000, 4000]\<rparr>"
proof -
  have two: "Suc (Suc 0) = 2" by simp
  show ?thesis using assms
    by (simp add: executeWithRetry_def executeWithRetry_from.simps MAX_RETRIES_def
        BASE_DELAY_def two)
qed

lemma first_error_not_retried:
  assumes "operation 0 = Inl e" "\<not> includes_str (message e) ''429''"
  shows "executeWithRetry operation =
           \<lparr>retry_outcome = Inl e, operation_calls = 1, backoff_delays = []\<rparr>"
  using assms
  by (simp add: executeWithRetry_def executeWithRetry_from.simps MAX_RETRIES_def)

text \<open>
  Claim C4 says that an HTTP error other than 429 is not retried, and the source says so
  in its comment (\<^verbatim>\<open>// For non-429 errors, don't retry\<close>). The loop throws such an
  error only when \<open>attempt = 0\<close>. Here the first response is a 429, the second a 500 and
  the third a success: the 500 is followed at once by a third request, and the call
  returns the text of the third response.
\<close>

theorem retry_after_other_error:
  "Mistral_extractTextFromImage flaky_world =
     \<lparr>retry_outcome = Inr ''Hello'', operation_calls = 3, backoff_delays = [2000]\<rparr>"
  by (simp add: Mistral_extractTextFromImage_def executeWithRetry_def
      executeWithRetry_from.simps flaky_world_def rate_limited_request server_error_request
      success_request rate_limit_message server_error_message MAX_RETRIES_def BASE_DELAY_def)

subsection \<open>C5: both providers fail\<close>

text \<open>
  Claim C5, as stated, fails: the local provider catches its own errors and answers them
  with an empty text of confidence 0, so the arbiter never sees the local attempt fail.
  When the remote request fails and the recogniser throws, the call returns an empty
  text, which embeds neither error message.
\<close>

theorem both_providers_fail_counterexample:
  "mistral_outcome both_down = Inl (Error ''Network request failed'')
   \<and> recognize both_down = Inl (Error ''Recognition failed'')
   \<and> returned (extractTextFromImage ModeAuto both_down 1000 initial_service) =
       Inr \<lparr>ocr_text = [], source = Offline, confidence = 0, processingTime = 150,
            fallbackUsed = True\<rparr>
   \<and> \<not> includes_str [] ''Network request failed''
   \<and> \<not> includes_str [] ''Recognition failed''"
  using both_down_call by (simp add: both_down_def empty_result_def)

text \<open>
  Claim C5, amended. The local recognition fails when the image file cannot be examined
  or does not exist, or when the recogniser throws. For every request in \<open>auto\<close> mode,
  made outside a cooldown, in which the remote attempt fails and the local recognition
  fails as well, the arbiter has called the remote and then the local provider and
  returns, rather than throwing, the failure result of the local provider: empty text,
  confidence 0, source \<open>offline\<close>, \<open>fallbackUsed = true\<close>. No error message is embedded.
  A request in \<open>auto\<close> mode never throws, because \<open>performOfflineOCR\<close> never does.
\<close>

theorem both_providers_fail:
  "(isl (recognizeOnDevice env) \<longleftrightarrow>
      isl (fileInfo env) \<or> fileInfo env = Inr False \<or> isl (recognize env))
   \<and> (\<not> (isTemporarilyOffline s \<and> now < offlineUntil s)
        \<and> mistral_outcome env = Inl error \<and> recognizeOnDevice env = Inl offlineError
      \<longrightarrow> called (extractTextFromImage ModeAuto env now s) = [RemoteProvider, LocalProvider]
         \<and> returned (extractTextFromImage ModeAuto env now s) =
             Inr \<lparr>ocr_text = [], source = Offline, confidence = 0,
                  processingTime = int (mistral_ms env) + int (device_ms env),
                  fallbackUsed = True\<rparr>)
   \<and> (\<exists>r. returned (extractTextFromImage ModeAuto env now s) = Inr r)
   \<and> (\<exists>r. performOfflineOCR env now startTime fallback = Inr r)"
proof -
  have fails: "isl (recognizeOnDevice env) \<longleftrightarrow>
      isl (fileInfo env) \<or> fileInfo env = Inr False \<or> isl (recognize env)"
    by (auto simp: recognizeOnDevice_def split: sum.splits)
  have both: "called (extractTextFromImage ModeAuto env now s) = [RemoteProvider, LocalProvider]
         \<and> returned (extractTextFromImage ModeAuto env now s) =
             Inr \<lparr>ocr_text = [], source = Offline, confidence = 0,
                  processingTime = int (mistral_ms env) + int (device_ms env),
                  fallbackUsed = True\<rparr>"
    if "\<not> (isTemporarilyOffline s \<and> now < offlineUntil s)"
      "mistral_outcome env = Inl error" "recognizeOnDevice env = Inl offlineError"
    using that
    by (auto simp: extractTextFromImage_def performOnlineOCR_def performOfflineOCR_returns
        failed_recognition Let_def)
  have total: "\<exists>r. returned (extractTextFromImage ModeAuto env now s) = Inr r"
    by (rule arbiter_returns) simp
  have local: "\<exists>r. performOfflineOCR env now startTime fallback = Inr r"
    by (simp add: performOfflineOCR_returns)
  show ?thesis using fails both total local by blast
qed

theorem both_providers_fail_witness:
  "\<not> (isTemporarilyOffline initial_service \<and> 1000 < offlineUntil initial_service)
   \<and> mistral_outcome both_down = Inl (Error ''Network request failed'')
   \<and> recognizeOnDevice both_down = Inl (Error ''Recognition failed'')
   \<and> isl (recognize both_down)
   \<and> called (extractTextFromImage ModeAuto both_down 1000 initial_service) =
       [RemoteProvider, LocalProvider]
   \<and> returned (extractTextFromImage ModeAuto both_down 1000 initial_service) =
       Inr \<lparr>ocr_text = [], source = Offline, confidence = 0, processingTime = 150,
            fallbackUsed = True\<rparr>"
proof -
  have clear: "\<not> (isTemporarilyOffline initial_service \<and> 1000 < offlineUntil initial_service)"
    by (simp add: initial_service_def)
  have remote: "mistral_outcome both_down = Inl (Error ''Network request failed'')"
    by (simp add: both_down_def)
  have device: "recognizeOnDevice both_down = Inl (Error ''Recognition failed'')"
    "isl (recognize both_down)"
    by (simp_all add: recognizeOnDevice_def both_down_def)
  have ms: "int (mistral_ms both_down) + int (device_ms both_down) = 150"
    by (simp add: both_down_def)
  from both_providers_fail [of both_down initial_service 1000
      "Error ''Network request failed''" "Error ''Recognition failed''" 0 True]
    clear remote device(1)
  have "called (extractTextFromImage ModeAuto both_down 1000 initial_service) =
          [RemoteProvider, LocalProvider]
     \<and> returned (extractTextFromImage ModeAuto both_down 1000 initial_service) =
         Inr \<lparr>ocr_text = [], source = Offline, confidence = 0,
              processingTime = int (mistral_ms both_down) + int (device_ms both_down),
              fallbackUsed = True\<rparr>"
    by blast
  then show ?thesis using clear remote device ms by simp
qed

subsection \<open>C6: the OCR gate\<close>

text \<open>
  Claim C6. In the result of a PDF or of a PPTX document, every unit with
  \<open>ocrUsed = true\<close> has an arbiter call logged for it, made when the text of the unit's
  structural extraction had a trimmed length below 20. Every arbiter call a document
  makes is made on a structural text of trimmed length below 20 (for a PDF page, the text
  of one of the at most three attempts at that page; for a slide, the text extracted from
  its XML). A unit whose structural text has a trimmed length of at least 20 (a PDF page:
  in each of its attempts) has \<open>ocrUsed = false\<close> in every entry that carries its number,
  and no arbiter call is made for it. All this holds whatever the \<open>onProgress\<close> callback
  does; when no call of the callback throws, the entries are in the order of the units,
  and the entry of unit \<open>i + 1\<close> is the one at position \<open>i\<close>.
\<close>

theorem ocr_gate:
  "(extractTextFromPDF env u = Inr r \<longrightarrow>
      (\<forall>p \<in> set (pdf_pages r). page_ocrUsed p \<longrightarrow>
         (\<exists>q \<in> set (pdf_ocr_requests env u).
            req_unit q = pageNumber p \<and> length (trim (req_structural q)) < 20))
    \<and> (\<forall>q \<in> set (pdf_ocr_requests env u).
         length (trim (req_structural q)) < 20
         \<and> (\<exists>k \<le> maxRetries.
               req_structural q = structuralText (pageWorld env (req_unit q - 1) k)))
    \<and> (\<forall>i < totalPages r.
         (\<forall>k \<le> maxRetries. 20 \<le> length (trim (structuralText (pageWorld env i k)))) \<longrightarrow>
         (\<forall>p \<in> set (pdf_pages r). pageNumber p = i + 1 \<longrightarrow> \<not> page_ocrUsed p)
         \<and> ((\<forall>j < totalPages r. \<forall>k \<le> maxRetries. progress (pageWorld env j k) = None) \<longrightarrow>
              \<not> page_ocrUsed (pdf_pages r ! i))
         \<and> (\<forall>q \<in> set (pdf_ocr_requests env u). req_unit q \<noteq> i + 1)))
   \<and> (extractTextFromPPTX penv u = Inr r' \<longrightarrow>
      (\<exists>names. zipEntries penv = Inr names
        \<and> (\<forall>p \<in> set (pptx_slides r'). slide_ocrUsed p \<longrightarrow>
             (\<exists>q \<in> set (pptx_ocr_requests penv u).
                req_unit q = slideNumber p \<and> length (trim (req_structural q)) < 20))
        \<and> (\<forall>q \<in> set (pptx_ocr_requests penv u).
             length (trim (req_structural q)) < 20
             \<and> req_structural q =
                 xmlText (slideWorld penv (slideFiles_of names ! (req_unit q - 1))))
        \<and> (\<forall>i < totalSlides r'.
             20 \<le> length (trim (xmlText (slideWorld penv (slideFiles_of names ! i)))) \<longrightarrow>
             (\<forall>p \<in> set (pptx_slides r'). slideNumber p = i + 1 \<longrightarrow> \<not> slide_ocrUsed p)
             \<and> ((\<forall>name \<in> set (slideFiles_of names).
                    slide_progress (slideWorld penv name) = None) \<longrightarrow>
                  \<not> slide_ocrUsed (pptx_slides r' ! i))
             \<and> (\<forall>q \<in> set (pptx_ocr_requests penv u). req_unit q \<noteq> i + 1))))"
proof -
  have A: "\<exists>q \<in> set (pdf_ocr_requests env u).
            req_unit q = pageNumber p \<and> length (trim (req_structural q)) < 20"
    if r: "extractTextFromPDF env u = Inr r" and p: "p \<in> set (pdf_pages r)"
      and used: "page_ocrUsed p" for p
  proof -
    from pdf_entry_origin [OF r p] obtain i where i: "i < totalPages r"
      and pi: "p \<in> set (pushed (processPage u i (pageWorld env i)))" by blast
    from pdf_pages_concat [OF r] have load: "pdfLoad env = Inr (totalPages r)" by simp
    from page_entries_processPage [OF pi] used
    have "pageNumber p = i + 1 \<and>
       (\<exists>q \<in> set (page_requests (processPage u i (pageWorld env i))).
          req_unit q = i + 1 \<and> length (trim (req_structural q)) < MIN_TEXT_LENGTH)"
      by simp
    then show ?thesis
      using i by (auto simp: pdf_requests_eq [OF load] MIN_TEXT_LENGTH_def)
  qed
  have B: "length (trim (req_structural q)) < 20
         \<and> (\<exists>k \<le> maxRetries.
               req_structural q = structuralText (pageWorld env (req_unit q - 1) k))"
    if r: "extractTextFromPDF env u = Inr r" and q: "q \<in> set (pdf_ocr_requests env u)" for q
  proof -
    from pdf_pages_concat [OF r] have load: "pdfLoad env = Inr (totalPages r)" by simp
    from q obtain i where i: "i < totalPages r"
      and qi: "q \<in> set (page_requests (processPage u i (pageWorld env i)))"
      by (auto simp: pdf_requests_eq [OF load])
    from page_requests_processPage [OF qi] obtain k where k: "k \<le> maxRetries"
      and qk: "q \<in> set (snd (snd (pageProcessing u i (pageWorld env i k))))"
      by blast
    from pageProcessing_request [OF qk] show ?thesis
      using k by (auto simp: MIN_TEXT_LENGTH_def)
  qed
  have C: "(\<forall>p \<in> set (pdf_pages r). pageNumber p = i + 1 \<longrightarrow> \<not> page_ocrUsed p)
         \<and> ((\<forall>j < totalPages r. \<forall>k \<le> maxRetries. progress (pageWorld env j k) = None) \<longrightarrow>
              \<not> page_ocrUsed (pdf_pages r ! i))
         \<and> (\<forall>q \<in> set (pdf_ocr_requests env u). req_unit q \<noteq> i + 1)"
    if r: "extractTextFromPDF env u = Inr r" and i: "i < totalPages r"
      and long: "\<forall>k \<le> maxRetries. 20 \<le> length (trim (structuralText (pageWorld env i k)))"
    for i
  proof -
    have none: "req_unit q \<noteq> i + 1" if q: "q \<in> set (pdf_ocr_requests env u)" for q
    proof
      assume unit: "req_unit q = i + 1"
      from B [OF r q] obtain k where "k \<le> maxRetries"
        "req_structural q = structuralText (pageWorld env (req_unit q - 1) k)"
        "length (trim (req_structural q)) < 20" by blast
      with unit long show False by auto
    qed
    have every: "\<not> page_ocrUsed p" if "p \<in> set (pdf_pages r)" "pageNumber p = i + 1" for p
      using A [OF r that(1)] none that(2) by metis
    have at: "\<not> page_ocrUsed (pdf_pages r ! i)"
      if quiet: "\<forall>j < totalPages r. \<forall>k \<le> maxRetries. progress (pageWorld env j k) = None"
    proof -
      from pdf_page_nth [OF r quiet i]
      have mem: "pdf_pages r ! i \<in> set (pushed (processPage u i (pageWorld env i)))" by simp
      from page_entries_processPage [OF mem] pdf_entry_in_result [OF r i mem]
      show ?thesis using every by blast
    qed
    show ?thesis using none every at by blast
  qed
  have D: "\<exists>names. zipEntries penv = Inr names
        \<and> (\<forall>p \<in> set (pptx_slides r'). slide_ocrUsed p \<longrightarrow>
             (\<exists>q \<in> set (pptx_ocr_requests penv u).
                req_unit q = slideNumber p \<and> length (trim (req_structural q)) < 20))
        \<and> (\<forall>q \<in> set (pptx_ocr_requests penv u).
             length (trim (req_structural q)) < 20
             \<and> req_structural q =
                 xmlText (slideWorld penv (slideFiles_of names ! (req_unit q - 1))))
        \<and> (\<forall>i < totalSlides r'.
             20 \<le> length (trim (xmlText (slideWorld penv (slideFiles_of names ! i)))) \<longrightarrow>
             (\<forall>p \<in> set (pptx_slides r'). slideNumber p = i + 1 \<longrightarrow> \<not> slide_ocrUsed p)
             \<and> ((\<forall>name \<in> set (slideFiles_of names).
                    slide_progress (slideWorld penv name) = None) \<longrightarrow>
                  \<not> slide_ocrUsed (pptx_slides r' ! i))
             \<and> (\<forall>q \<in> set (pptx_ocr_requests penv u). req_unit q \<noteq> i + 1))"
    if r: "extractTextFromPPTX penv u = Inr r'"
  proof -
    from pptx_slides_concat [OF r] obtain names where names: "zipEntries penv = Inr names"
      by blast
    have used: "\<exists>q \<in> set (pptx_ocr_requests penv u).
                req_unit q = slideNumber p \<and> length (trim (req_structural q)) < 20"
      if p: "p \<in> set (pptx_slides r')" and u: "slide_ocrUsed p" for p
    proof -
      from pptx_entry_origin [OF r names p] obtain j where j: "j < totalSlides r'"
        and pj: "p \<in> set (slide_pushed (processSlide u j (length (slideFiles_of names))
                       (slideWorld penv (slideFiles_of names ! j))))" by blast
      from pptx_slides_concat [OF r] names
      have total: "totalSlides r' = length (slideFiles_of names)" by auto
      from slide_entries [OF pj] u show ?thesis
        using j total by (auto simp: pptx_requests_eq [OF names] MIN_TEXT_LENGTH_def)
    qed
    have req: "length (trim (req_structural q)) < 20
             \<and> req_structural q =
                 xmlText (slideWorld penv (slideFiles_of names ! (req_unit q - 1)))"
      if q: "q \<in> set (pptx_ocr_requests penv u)" for q
    proof -
      from q obtain j where
        "q \<in> set (slide_requests (processSlide u j (length (slideFiles_of names))
                       (slideWorld penv (slideFiles_of names ! j))))"
        by (auto simp: pptx_requests_eq [OF names])
      then have "q \<in> set (snd (slideTry u (j + 1) (slideWorld penv (slideFiles_of names ! j))))"
        by (simp add: slide_requests_processSlide)
      from slideTry_request [OF this] show ?thesis by (simp add: MIN_TEXT_LENGTH_def)
    qed
    have gate: "(\<forall>p \<in> set (pptx_slides r'). slideNumber p = i + 1 \<longrightarrow> \<not> slide_ocrUsed p)
             \<and> ((\<forall>name \<in> set (slideFiles_of names).
                    slide_progress (slideWorld penv name) = None) \<longrightarrow>
                  \<not> slide_ocrUsed (pptx_slides r' ! i))
             \<and> (\<forall>q \<in> set (pptx_ocr_requests penv u). req_unit q \<noteq> i + 1)"
      if i: "i < totalSlides r'"
        and long: "20 \<le> length (trim (xmlText (slideWorld penv (slideFiles_of names ! i))))"
      for i
    proof -
      have none: "req_unit q \<noteq> i + 1" if q: "q \<in> set (pptx_ocr_requests penv u)" for q
      proof
        assume unit: "req_unit q = i + 1"
        with req [OF q] long show False by auto
      qed
      have every: "\<not> slide_ocrUsed p"
        if "p \<in> set (pptx_slides r')" "slideNumber p = i + 1" for p
        using used [OF that(1)] none that(2) by metis
      have at: "\<not> slide_ocrUsed (pptx_slides r' ! i)"
        if quiet: "\<forall>name \<in> set (slideFiles_of names).
                    slide_progress (slideWorld penv name) = None"
      proof -
        from pptx_slide_nth [OF r names quiet i]
        have mem: "pptx_slides r' ! i \<in>
            set (slide_pushed (processSlide u i (length (slideFiles_of names))
                   (slideWorld penv (slideFiles_of names ! i))))" by simp
        from slide_entries [OF mem] pptx_entry_in_result [OF r names i mem]
        show ?thesis using every by blast
      qed
      show ?thesis using none every at by blast
    qed
    show ?thesis using names used req gate by blast
  qed
  show ?thesis using A B C D by blast
qed

theorem ocr_gate_witness:
  "extractTextFromPDF scanned_pdf True = Inr scanned_pdf_result
   \<and> scanned_page \<in> set (pdf_pages scanned_pdf_result) \<and> page_ocrUsed scanned_page
   \<and> scanned_request \<in> set (pdf_ocr_requests scanned_pdf True)
   \<and> req_unit scanned_request = pageNumber scanned_page
   \<and> length (trim (req_structural scanned_request)) < 20
   \<and> extractTextFromPPTX (deck_of image_slide) False = Inr image_deck_result
   \<and> image_slide_info \<in> set (pptx_slides image_deck_result) \<and> slide_ocrUsed image_slide_info
   \<and> slide_request \<in> set (pptx_ocr_requests (deck_of image_slide) False)
   \<and> req_unit slide_request = slideNumber image_slide_info
   \<and> length (trim (req_structural slide_request)) < 20"
proof -
  have p1: "scanned_page \<in> set (pdf_pages scanned_pdf_result)" "page_ocrUsed scanned_page"
    by (simp_all add: scanned_pdf_result_def scanned_page_def)
  have q1: "scanned_request \<in> set (pdf_ocr_requests scanned_pdf True)"
    by (simp add: scanned_pdf_requests)
  have p2: "image_slide_info \<in> set (pptx_slides image_deck_result)"
    "slide_ocrUsed image_slide_info"
    by (simp_all add: image_deck_result_def image_slide_info_def)
  have q2: "slide_request \<in> set (pptx_ocr_requests (deck_of image_slide) False)"
    by (simp add: image_deck_requests)
  from ocr_gate [of scanned_pdf True scanned_pdf_result "deck_of image_slide" image_deck_result]
    scanned_pdf_eval p1
  have "\<exists>q \<in> set (pdf_ocr_requests scanned_pdf True).
          req_unit q = pageNumber scanned_page \<and> length (trim (req_structural q)) < 20"
    by blast
  then have c1: "req_unit scanned_request = pageNumber scanned_page
      \<and> length (trim (req_structural scanned_request)) < 20"
    by (simp add: scanned_pdf_requests)
  from ocr_gate [of scanned_pdf False scanned_pdf_result "deck_of image_slide" image_deck_result]
    image_deck_eval
  have "\<forall>p \<in> set (pptx_slides image_deck_result). slide_ocrUsed p \<longrightarrow>
          (\<exists>q \<in> set (pptx_ocr_requests (deck_of image_slide) False).
             req_unit q = slideNumber p \<and> length (trim (req_structural q)) < 20)"
    by blast
  with p2
  have "\<exists>q \<in> set (pptx_ocr_requests (deck_of image_slide) False).
          req_unit q = slideNumber image_slide_info \<and> length (trim (req_structural q)) < 20"
    by blast
  then have c2: "req_unit slide_request = slideNumber image_slide_info
      \<and> length (trim (req_structural slide_request)) < 20"
    by (simp add: image_deck_requests)
  show ?thesis using scanned_pdf_eval image_deck_eval p1 q1 p2 q2 c1 c2 by simp
qed

subsection \<open>C7: one entry per unit\<close>

text \<open>
  Claim C7 against the code. A PDF of one page and a presentation of one slide, each with
  a structural text that is long enough, are processed with an \<open>onProgress\<close> callback that
  throws. The entry of the unit has been pushed when the callback is called. For the page,
  the throw reaches the retry handler: the page is processed and pushed again in each of
  the two retries, and an error entry follows, four entries for one page. For the slide,
  the \<open>catch\<close> pushes an error entry as well, two entries for one slide.
\<close>

theorem entries_with_throwing_callback:
  "progress (pageWorld noisy_pdf 0 0) = Some (Error ''progress failed'')
   \<and> map_sum id (\<lambda>r. (totalPages r, pdf_pages r)) (extractTextFromPDF noisy_pdf False) =
       Inr (1,
         [\<lparr>pageNumber = 1, page_text = ''Chapter one of the lecture notes'',
           page_wordCount = 6, page_processingTime = 900, page_ocrUsed = False\<rparr>,
          \<lparr>pageNumber = 1, page_text = ''Chapter one of the lecture notes'',
           page_wordCount = 6, page_processingTime = 2800, page_ocrUsed = False\<rparr>,
          \<lparr>pageNumber = 1, page_text = ''Chapter one of the lecture notes'',
           page_wordCount = 6, page_processingTime = 4700, page_ocrUsed = False\<rparr>,
          \<lparr>pageNumber = 1, page_text = ''Error processing page 1: progress failed'',
           page_wordCount = 0, page_processingTime = 4700, page_ocrUsed = False\<rparr>])
   \<and> slide_progress (slideWorld (deck_of noisy_slide) ''ppt/slides/slide1.xml'') =
       Some (Error ''progress failed'')
   \<and> map_sum id (\<lambda>r. (totalSlides r, pptx_slides r))
         (extractTextFromPPTX (deck_of noisy_slide) False) =
       Inr (1,
         [\<lparr>slideNumber = 1, slide_text = ''Quarterly results and outlook'',
           slide_wordCount = 4, slide_processingTime = 40, slide_ocrUsed = False\<rparr>,
          \<lparr>slideNumber = 1, slide_text = ''Error processing slide 1: Error: progress failed'',
           slide_wordCount = 0, slide_processingTime = 40, slide_ocrUsed = False\<rparr>])"
proof -
  have thrown: "progress (pageWorld noisy_pdf 0 0) = Some (Error ''progress failed'')"
    "slide_progress (slideWorld (deck_of noisy_slide) ''ppt/slides/slide1.xml'') =
       Some (Error ''progress failed'')"
    by (simp_all add: noisy_pdf_def noisy_attempt_def deck_of_def noisy_slide_def)
  show ?thesis
    using thrown
    by (simp add: noisy_pdf_pages noisy_deck_slides chapter_page_def noisy_error_page_def
        noisy_slide_info_def noisy_error_slide_def)
qed

subsection \<open>C8: batch resilience\<close>

text \<open>
  Claim C8, as stated, fails twice. A presentation whose archive cannot be opened does not
  count as failed: \<open>processPPTX\<close> catches the error and returns instructions as the text
  of the document, so a batch of two documents with such a presentation returns two
  documents, and the instructions are part of the combined text. And a document whose
  processing does throw (here one of an unsupported type) leaves no record: the batch
  returns the very result it returns without that document.
\<close>

theorem batch_resilience_counterexample:
  "documentKind (doc_type deck_doc) = KindPresentation
   \<and> enhancedPPTX corrupt_deck_env =
       Inl (Error ''Enhanced PPTX processing failed: Corrupted zip'')
   \<and> map pd_name
       (documents (processBatch [(notes_doc, readable_env), (deck_doc, corrupt_deck_env)] False)) =
       [''notes.txt'', ''deck.pptx'']
   \<and> extractedText
       (documents (processBatch [(notes_doc, readable_env), (deck_doc, corrupt_deck_env)] False)
          ! 1) = pptx_fallbackText ''file:///docs/deck.pptx''
   \<and> includes_str
       (batch_combinedText
          (processBatch [(notes_doc, readable_env), (deck_doc, corrupt_deck_env)] False))
       ''PowerPoint file detected: deck.pptx''
   \<and> processDocument archive_doc False archive_env =
       Inl (Error ''Unsupported document type: application/zip'')
   \<and> processBatch [(notes_doc, readable_env), (archive_doc, archive_env)] False =
       processBatch [(notes_doc, readable_env)] False"
proof -
  have env: "enhancedPPTX corrupt_deck_env =
      Inl (Error ''Enhanced PPTX processing failed: Corrupted zip'')"
    by (simp add: corrupt_deck_env_def)
  have docs: "documents (processBatch [(notes_doc, readable_env), (deck_doc, corrupt_deck_env)]
      False) = [notes_processed, deck_processed]"
    by (simp add: processBatch_documents notes_eval deck_doc_eval)
  have names: "map pd_name [notes_processed, deck_processed] = [''notes.txt'', ''deck.pptx'']"
    by (simp add: notes_processed_def deck_processed_def)
  have second: "extractedText ([notes_processed, deck_processed] ! 1) =
      pptx_fallbackText ''file:///docs/deck.pptx''"
    by (simp add: deck_processed_def)
  have "combineDocumentContent [notes_processed, deck_processed] =
      (''=== notes.txt ==='' @ [newline] @ ''two words'' @ [newline, newline] @
       ''=== deck.pptx ==='' @ [newline]) @
      ''PowerPoint file detected: deck.pptx'' @
      drop 35 (pptx_fallbackText ''file:///docs/deck.pptx'')"
    by (simp add: combineDocumentContent_def notes_processed_def deck_processed_def
        pptx_fallbackText_def last_segment_def)
  then have "includes_str (combineDocumentContent [notes_processed, deck_processed])
      ''PowerPoint file detected: deck.pptx''"
    by (simp only: includes_str_middle)
  then have part: "includes_str
       (batch_combinedText
          (processBatch [(notes_doc, readable_env), (deck_doc, corrupt_deck_env)] False))
       ''PowerPoint file detected: deck.pptx''"
    using docs processBatch_from_documents
      [of "[(notes_doc, readable_env), (deck_doc, corrupt_deck_env)]" False]
    by simp
  have ms: "doc_ms archive_env = 0" by (simp add: archive_env_def)
  have same: "processBatch [(notes_doc, readable_env), (archive_doc, archive_env)] False =
       processBatch [(notes_doc, readable_env)] False"
    by (simp add: processBatch_def notes_eval archive_eval ms)
  show ?thesis using deck_kind env docs names second part archive_eval same by simp
qed

text \<open>
  Claim C8, amended. For every batch of documents the batch pipeline does not abort: it
  returns, in input order, the results of the documents whose processing does not throw.
  The processing of a document throws only when its type is unsupported, when it is a
  text file that cannot be read, or when it is a PDF that neither the enhanced nor the
  basic extraction can read. With one such document \<open>k\<close> among \<open>N\<close>, the others being
  processed, the result holds the \<open>N - 1\<close> others; the failure is written to the console
  only, and the result has no record of it: its documents, its combined text and its word
  count are those of the batch without document \<open>k\<close>. A presentation, a Word document or
  an image never counts as failed; when the archive of a presentation cannot be opened,
  the document is returned with instructions as its text.
\<close>

theorem batch_resilience:
  "documents (processBatch docs u) =
     map (\<lambda>(doc, env). projr (processDocument doc u env))
       (filter (\<lambda>(doc, env). \<not> isl (processDocument doc u env)) docs)
   \<and> (k < length docs \<and> isl (processDocument (fst (docs ! k)) u (snd (docs ! k)))
        \<and> (\<forall>j < length docs. j \<noteq> k \<longrightarrow>
              \<not> isl (processDocument (fst (docs ! j)) u (snd (docs ! j))))
      \<longrightarrow> length (documents (processBatch docs u)) = length docs - 1
         \<and> documents (processBatch docs u) =
             documents (processBatch (take k docs @ drop (Suc k) docs) u)
         \<and> batch_combinedText (processBatch docs u) =
             batch_combinedText (processBatch (take k docs @ drop (Suc k) docs) u)
         \<and> totalWordCount (processBatch docs u) =
             totalWordCount (processBatch (take k docs @ drop (Suc k) docs) u))
   \<and> (isl (processDocument doc u env) \<longleftrightarrow>
        documentKind (doc_type doc) = KindPDF \<and> isl (enhancedPDF env) \<and> isl (basicPDF env)
        \<or> documentKind (doc_type doc) = KindText \<and> isl (textRead env)
        \<or> documentKind (doc_type doc) = KindUnsupported)
   \<and> (documentKind (doc_type doc) = KindPresentation \<and> isl (enhancedPPTX env) \<longrightarrow>
        processDocument doc u env =
          Inr (processed doc env (pptx_fallbackText (doc_uri doc)) [] None ''Unknown'' []))"
proof -
  have kept: "documents (processBatch docs u) =
     map (\<lambda>(doc, env). projr (processDocument doc u env))
       (filter (\<lambda>(doc, env). \<not> isl (processDocument doc u env)) docs)"
    by (rule processBatch_documents)
  have one: "length (documents (processBatch docs u)) = length docs - 1
         \<and> documents (processBatch docs u) =
             documents (processBatch (take k docs @ drop (Suc k) docs) u)
         \<and> batch_combinedText (processBatch docs u) =
             batch_combinedText (processBatch (take k docs @ drop (Suc k) docs) u)
         \<and> totalWordCount (processBatch docs u) =
             totalWordCount (processBatch (take k docs @ drop (Suc k) docs) u)"
    if k: "k < length docs"
      and bad: "isl (processDocument (fst (docs ! k)) u (snd (docs ! k)))"
      and good: "\<forall>j < length docs. j \<noteq> k \<longrightarrow>
              \<not> isl (processDocument (fst (docs ! j)) u (snd (docs ! j)))"
  proof -
    define P where "P = (\<lambda>(doc, env). \<not> isl (processDocument doc u env))"
    have Pk: "\<not> P (docs ! k)" using bad by (simp add: P_def case_prod_beta)
    have Pj: "\<forall>j < length docs. j \<noteq> k \<longrightarrow> P (docs ! j)"
      using good by (simp add: P_def case_prod_beta)
    have f1: "filter P docs = take k docs @ drop (Suc k) docs"
      by (rule filter_all_but_one [OF k Pk Pj])
    have f2: "filter P (take k docs @ drop (Suc k) docs) = take k docs @ drop (Suc k) docs"
      by (rule filter_without_one [OF k Pj])
    have same: "documents (processBatch docs u) =
        documents (processBatch (take k docs @ drop (Suc k) docs) u)"
      using f1 f2 unfolding processBatch_documents P_def by simp
    have "length (documents (processBatch docs u)) = length (take k docs @ drop (Suc k) docs)"
      using f1 unfolding processBatch_documents P_def by simp
    then have len: "length (documents (processBatch docs u)) = length docs - 1"
      using k by simp
    show ?thesis
      using len same
        processBatch_from_documents [of docs u]
        processBatch_from_documents [of "take k docs @ drop (Suc k) docs" u]
      by simp
  qed
  have throws: "isl (processDocument doc u env) \<longleftrightarrow>
        documentKind (doc_type doc) = KindPDF \<and> isl (enhancedPDF env) \<and> isl (basicPDF env)
        \<or> documentKind (doc_type doc) = KindText \<and> isl (textRead env)
        \<or> documentKind (doc_type doc) = KindUnsupported"
    by (rule processDocument_throws)
  have deck: "processDocument doc u env =
          Inr (processed doc env (pptx_fallbackText (doc_uri doc)) [] None ''Unknown'' [])"
    if "documentKind (doc_type doc) = KindPresentation" "isl (enhancedPPTX env)"
    using that presentation_fallback [of doc env _ u] by (cases "enhancedPPTX env") simp_all
  show ?thesis
    apply (intro conjI)
       apply (rule kept)
      apply (rule impI)
      apply (elim conjE)
      apply (erule (2) one)
     apply (rule throws)
    apply (rule impI)
    apply (elim conjE)
    apply (erule (1) deck)
    done
qed

theorem batch_resilience_witness:
  "1 < length three_documents
   \<and> processDocument (fst (three_documents ! 1)) False (snd (three_documents ! 1)) =
       Inl (Error ''Unsupported document type: application/zip'')
   \<and> processDocument (fst (three_documents ! 0)) False (snd (three_documents ! 0)) =
       Inr notes_processed
   \<and> processDocument (fst (three_documents ! 2)) False (snd (three_documents ! 2)) =
       Inr notes_processed
   \<and> length three_documents = 3
   \<and> length (documents (processBatch three_documents False)) = 2
   \<and> documents (processBatch three_documents False) =
       documents (processBatch [(notes_doc, readable_env), (notes_doc, readable_env)] False)
   \<and> documentKind (doc_type deck_doc) = KindPresentation \<and> isl (enhancedPPTX corrupt_deck_env)
   \<and> processDocument deck_doc False corrupt_deck_env = Inr deck_processed"
proof -
  have k: "1 < length three_documents" and n: "length three_documents = 3"
    by (simp_all add: three_documents_def)
  have d1: "processDocument (fst (three_documents ! 1)) False (snd (three_documents ! 1)) =
       Inl (Error ''Unsupported document type: application/zip'')"
    by (simp add: three_documents_def archive_eval)
  have d0: "processDocument (fst (three_documents ! 0)) False (snd (three_documents ! 0)) =
       Inr notes_processed"
    and d2: "processDocument (fst (three_documents ! 2)) False (snd (three_documents ! 2)) =
       Inr notes_processed"
    by (simp_all add: three_documents_def notes_eval)
  have bad: "isl (processDocument (fst (three_documents ! 1)) False (snd (three_documents ! 1)))"
    using d1 by simp
  have good: "\<forall>j < length three_documents. j \<noteq> 1 \<longrightarrow>
      \<not> isl (processDocument (fst (three_documents ! j)) False (snd (three_documents ! j)))"
  proof (intro allI impI)
    fix j assume "j < length three_documents" "j \<noteq> 1"
    then have "j = 0 \<or> j = 2" using n by arith
    then show "\<not> isl (processDocument (fst (three_documents ! j)) False
        (snd (three_documents ! j)))"
      using d0 d2 by auto
  qed
  have rest: "take 1 three_documents @ drop (Suc 1) three_documents =
      [(notes_doc, readable_env), (notes_doc, readable_env)]"
    by (simp add: three_documents_def)
  have env: "isl (enhancedPPTX corrupt_deck_env)" by (simp add: corrupt_deck_env_def)
  note main = batch_resilience [of three_documents False 1 deck_doc corrupt_deck_env]
  note raw = main [THEN conjunct2, THEN conjunct1, rule_format,
      OF conjI [OF k conjI [OF bad good]]]
  have len: "length (documents (processBatch three_documents False)) = 2"
    using raw [THEN conjunct1] n by simp
  have same: "documents (processBatch three_documents False) =
         documents (processBatch [(notes_doc, readable_env), (notes_doc, readable_env)] False)"
    using raw [THEN conjunct2, THEN conjunct1] by (simp only: rest)
  note c1 = conjI [OF len same]
  from main [THEN conjunct2, THEN conjunct2, THEN conjunct2, rule_format,
      OF conjI [OF deck_kind env]]
  have c2: "processDocument deck_doc False corrupt_deck_env = Inr deck_processed"
    using deck_doc_eval by simp
  show ?thesis using k n d1 d0 d2 c1 deck_kind env c2 by blast
qed

subsection \<open>C9: timeout and retries of a unit\<close>

text \<open>
  Claim C9, as stated, fails for slides: the slide loop has neither a timer nor a retry.
  A slide whose single pass takes 60 seconds, more than the 45 seconds of the page timer,
  is recorded with its text and a processing time of 60000 ms.
\<close>

theorem slide_without_timeout_counterexample:
  "slide_ms slow_slide = 60000 \<and> PAGE_TIMEOUT = 45000
   \<and> extractTextFromPPTX (deck_of slow_slide) False = Inr slow_deck_result
   \<and> pptx_slides slow_deck_result =
       [\<lparr>slideNumber = 1, slide_text = ''Quarterly results and outlook'', slide_wordCount = 4,
         slide_processingTime = 60000, slide_ocrUsed = False\<rparr>]"
  using slow_deck_eval
  by (simp add: slow_slide_def PAGE_TIMEOUT_def slow_deck_result_def slow_slide_info_def)

text \<open>
  Claim C9, amended. Every PDF page is processed under a 45-second timeout and, on
  timeout, is retried up to 2 additional times: at most three attempts are made, the first
  attempt that finishes within the timeout leaves an entry with what it arrived at, and
  when none does the page's only entry is an error unit whose text is the error message
  and whose \<open>wordCount\<close> is 0; the document-level result still succeeds whenever the
  document could be loaded. A PPTX slide is processed in a single pass with no timeout and
  no retry: the pass leaves an entry with what it arrived at, however long it took, and
  when the pass throws the slide is recorded at once as an error unit whose text is the
  error message and whose \<open>wordCount\<close> is 0; the document-level result still succeeds
  whenever the archive could be loaded. All this holds whatever the \<open>onProgress\<close>
  callback does. When no call of the callback throws, every unit has exactly one entry, at
  its position in the result, and for a page it comes from the first of its attempts
  that finishes within the timeout.
\<close>

theorem unit_timeout_and_retry:
  "PAGE_TIMEOUT = 45000 \<and> maxRetries = 2
   \<and> (extractTextFromPDF env u = Inr r \<longrightarrow>
        (\<forall>i < totalPages r.
           page_attempts (processPage u i (pageWorld env i)) \<le> maxRetries + 1
           \<and> set (pushed (processPage u i (pageWorld env i))) \<subseteq> set (pdf_pages r)
           \<and> (\<forall>k \<le> maxRetries.
                 attempt_ms (pageWorld env i k) < PAGE_TIMEOUT
                 \<and> (\<forall>j < k. \<not> attempt_ms (pageWorld env i j) < PAGE_TIMEOUT) \<longrightarrow>
                 (\<exists>p \<in> set (pushed (processPage u i (pageWorld env i))).
                    page_text p = fst (pageProcessing u i (pageWorld env i k))
                    \<and> page_ocrUsed p = fst (snd (pageProcessing u i (pageWorld env i k)))))
           \<and> ((\<forall>k \<le> maxRetries. \<not> attempt_ms (pageWorld env i k) < PAGE_TIMEOUT) \<longrightarrow>
                 page_attempts (processPage u i (pageWorld env i)) = maxRetries + 1
                 \<and> (\<exists>p. pushed (processPage u i (pageWorld env i)) = [p]
                      \<and> page_text p =
                          ''Error processing page '' @ show_nat (i + 1) @
                          '': Page processing timeout''
                      \<and> page_wordCount p = 0)))
        \<and> ((\<forall>j < totalPages r. \<forall>k \<le> maxRetries. progress (pageWorld env j k) = None) \<longrightarrow>
        (\<forall>i < totalPages r.
           page_attempts (processPage u i (pageWorld env i)) \<le> maxRetries + 1
           \<and> pushed (processPage u i (pageWorld env i)) = [pdf_pages r ! i]
           \<and> (\<forall>k \<le> maxRetries.
                 attempt_ms (pageWorld env i k) < PAGE_TIMEOUT
                 \<and> (\<forall>j < k. \<not> attempt_ms (pageWorld env i j) < PAGE_TIMEOUT) \<longrightarrow>
                 page_attempts (processPage u i (pageWorld env i)) = k + 1
                 \<and> page_text (pdf_pages r ! i) = fst (pageProcessing u i (pageWorld env i k))
                 \<and> page_ocrUsed (pdf_pages r ! i) =
                     fst (snd (pageProcessing u i (pageWorld env i k))))
           \<and> ((\<forall>k \<le> maxRetries. \<not> attempt_ms (pageWorld env i k) < PAGE_TIMEOUT) \<longrightarrow>
                 page_attempts (processPage u i (pageWorld env i)) = maxRetries + 1
                 \<and> page_text (pdf_pages r ! i) =
                     ''Error processing page '' @ show_nat (i + 1) @ '': Page processing timeout''
                 \<and> page_wordCount (pdf_pages r ! i) = 0))))
   \<and> (\<forall>n. pdfLoad env = Inr n \<longrightarrow> (\<exists>r. extractTextFromPDF env u = Inr r))
   \<and> (extractTextFromPPTX penv u = Inr r' \<longrightarrow>
        (\<exists>names. zipEntries penv = Inr names
           \<and> (\<forall>i < totalSlides r'.
                 (\<forall>t used made.
                    slideTry u (i + 1) (slideWorld penv (slideFiles_of names ! i)) =
                      (Inr (t, used), made) \<longrightarrow>
                    (\<exists>p \<in> set (pptx_slides r'). slideNumber p = i + 1
                       \<and> slide_text p = t \<and> slide_ocrUsed p = used
                       \<and> slide_processingTime p =
                           slide_ms (slideWorld penv (slideFiles_of names ! i))))
               \<and> (\<forall>e made.
                    slideTry u (i + 1) (slideWorld penv (slideFiles_of names ! i)) =
                      (Inl e, made) \<longrightarrow>
                    (\<exists>p \<in> set (pptx_slides r'). slideNumber p = i + 1
                       \<and> slide_text p =
                           ''Error processing slide '' @ show_nat (i + 1) @ '': '' @
                           error_to_string e
                       \<and> slide_wordCount p = 0)))
           \<and> ((\<forall>name \<in> set (slideFiles_of names).
                  slide_progress (slideWorld penv name) = None) \<longrightarrow>
              (\<forall>i < totalSlides r'.
                 (\<forall>t used made.
                    slideTry u (i + 1) (slideWorld penv (slideFiles_of names ! i)) =
                      (Inr (t, used), made) \<longrightarrow>
                    slide_text (pptx_slides r' ! i) = t
                    \<and> slide_ocrUsed (pptx_slides r' ! i) = used
                    \<and> slide_processingTime (pptx_slides r' ! i) =
                        slide_ms (slideWorld penv (slideFiles_of names ! i)))
               \<and> (\<forall>e made.
                    slideTry u (i + 1) (slideWorld penv (slideFiles_of names ! i)) =
                      (Inl e, made) \<longrightarrow>
                    slide_text (pptx_slides r' ! i) =
                      ''Error processing slide '' @ show_nat (i + 1) @ '': '' @ error_to_string e
                    \<and> slide_wordCount (pptx_slides r' ! i) = 0)))))
   \<and> (\<forall>names. zipEntries penv = Inr names \<longrightarrow> (\<exists>r'. extractTextFromPPTX penv u = Inr r'))"
proof -
  have num1: "PAGE_TIMEOUT = 45000" by (simp add: PAGE_TIMEOUT_def)
  have num2: "maxRetries = 2" by (simp add: maxRetries_def)
  have general: "page_attempts (processPage u i (pageWorld env i)) \<le> maxRetries + 1
           \<and> set (pushed (processPage u i (pageWorld env i))) \<subseteq> set (pdf_pages r)
           \<and> (\<forall>k \<le> maxRetries.
                 attempt_ms (pageWorld env i k) < PAGE_TIMEOUT
                 \<and> (\<forall>j < k. \<not> attempt_ms (pageWorld env i j) < PAGE_TIMEOUT) \<longrightarrow>
                 (\<exists>p \<in> set (pushed (processPage u i (pageWorld env i))).
                    page_text p = fst (pageProcessing u i (pageWorld env i k))
                    \<and> page_ocrUsed p = fst (snd (pageProcessing u i (pageWorld env i k)))))
           \<and> ((\<forall>k \<le> maxRetries. \<not> attempt_ms (pageWorld env i k) < PAGE_TIMEOUT) \<longrightarrow>
                 page_attempts (processPage u i (pageWorld env i)) = maxRetries + 1
                 \<and> (\<exists>p. pushed (processPage u i (pageWorld env i)) = [p]
                      \<and> page_text p =
                          ''Error processing page '' @ show_nat (i + 1) @
                          '': Page processing timeout''
                      \<and> page_wordCount p = 0))"
    if r: "extractTextFromPDF env u = Inr r" and i: "i < totalPages r" for i
  proof -
    have kept: "set (pushed (processPage u i (pageWorld env i))) \<subseteq> set (pdf_pages r)"
      using pdf_entry_in_result [OF r i] by (rule subsetI)
    have first: "\<forall>k \<le> maxRetries.
                 attempt_ms (pageWorld env i k) < PAGE_TIMEOUT
                 \<and> (\<forall>j < k. \<not> attempt_ms (pageWorld env i j) < PAGE_TIMEOUT) \<longrightarrow>
                 (\<exists>p \<in> set (pushed (processPage u i (pageWorld env i))).
                    page_text p = fst (pageProcessing u i (pageWorld env i k))
                    \<and> page_ocrUsed p = fst (snd (pageProcessing u i (pageWorld env i k))))"
    proof (intro allI impI, elim conjE)
      fix k
      assume k: "k \<le> maxRetries" "attempt_ms (pageWorld env i k) < PAGE_TIMEOUT"
        "\<forall>j < k. \<not> attempt_ms (pageWorld env i j) < PAGE_TIMEOUT"
      from processPage_in_time_entry [OF k, of i u] obtain t where
        mem: "pageInfo i (fst (pageProcessing u i (pageWorld env i k)))
           (fst (snd (pageProcessing u i (pageWorld env i k)))) t
         \<in> set (pushed (processPage u i (pageWorld env i)))" by (rule exE)
      show "\<exists>p \<in> set (pushed (processPage u i (pageWorld env i))).
                    page_text p = fst (pageProcessing u i (pageWorld env i k))
                    \<and> page_ocrUsed p = fst (snd (pageProcessing u i (pageWorld env i k)))"
        by (rule bexI [OF _ mem]) (simp add: pageInfo_def)
    qed
    have exhausted: "(\<forall>k \<le> maxRetries. \<not> attempt_ms (pageWorld env i k) < PAGE_TIMEOUT) \<longrightarrow>
                 page_attempts (processPage u i (pageWorld env i)) = maxRetries + 1
                 \<and> (\<exists>p. pushed (processPage u i (pageWorld env i)) = [p]
                      \<and> page_text p =
                          ''Error processing page '' @ show_nat (i + 1) @
                          '': Page processing timeout''
                      \<and> page_wordCount p = 0)"
    proof (rule impI)
      assume late: "\<forall>k \<le> maxRetries. \<not> attempt_ms (pageWorld env i k) < PAGE_TIMEOUT"
      show "page_attempts (processPage u i (pageWorld env i)) = maxRetries + 1
                 \<and> (\<exists>p. pushed (processPage u i (pageWorld env i)) = [p]
                      \<and> page_text p =
                          ''Error processing page '' @ show_nat (i + 1) @
                          '': Page processing timeout''
                      \<and> page_wordCount p = 0)"
        using processPage_exhausted [OF late, of u i] by (simp add: errorPageInfo_def)
    qed
    show ?thesis
      by (intro conjI) (rule processPage_attempts_le kept first exhausted)+
  qed
  have pdf: "page_attempts (processPage u i (pageWorld env i)) \<le> maxRetries + 1
           \<and> pushed (processPage u i (pageWorld env i)) = [pdf_pages r ! i]
           \<and> (\<forall>k \<le> maxRetries.
                 attempt_ms (pageWorld env i k) < PAGE_TIMEOUT
                 \<and> (\<forall>j < k. \<not> attempt_ms (pageWorld env i j) < PAGE_TIMEOUT) \<longrightarrow>
                 page_attempts (processPage u i (pageWorld env i)) = k + 1
                 \<and> page_text (pdf_pages r ! i) = fst (pageProcessing u i (pageWorld env i k))
                 \<and> page_ocrUsed (pdf_pages r ! i) =
                     fst (snd (pageProcessing u i (pageWorld env i k))))
           \<and> ((\<forall>k \<le> maxRetries. \<not> attempt_ms (pageWorld env i k) < PAGE_TIMEOUT) \<longrightarrow>
                 page_attempts (processPage u i (pageWorld env i)) = maxRetries + 1
                 \<and> page_text (pdf_pages r ! i) =
                     ''Error processing page '' @ show_nat (i + 1) @ '': Page processing timeout''
                 \<and> page_wordCount (pdf_pages r ! i) = 0)"
    if r: "extractTextFromPDF env u = Inr r"
      and quiet: "\<forall>j < totalPages r. \<forall>k \<le> maxRetries. progress (pageWorld env j k) = None"
      and i: "i < totalPages r"
    for i
  proof -
    have nth: "pushed (processPage u i (pageWorld env i)) = [pdf_pages r ! i]"
      by (rule pdf_page_nth [OF r quiet i])
    have first: "\<forall>k \<le> maxRetries.
                 attempt_ms (pageWorld env i k) < PAGE_TIMEOUT
                 \<and> (\<forall>j < k. \<not> attempt_ms (pageWorld env i j) < PAGE_TIMEOUT) \<longrightarrow>
                 page_attempts (processPage u i (pageWorld env i)) = k + 1
                 \<and> page_text (pdf_pages r ! i) = fst (pageProcessing u i (pageWorld env i k))
                 \<and> page_ocrUsed (pdf_pages r ! i) =
                     fst (snd (pageProcessing u i (pageWorld env i k)))"
    proof (intro allI impI, elim conjE)
      fix k
      assume k: "k \<le> maxRetries" and win: "attempt_ms (pageWorld env i k) < PAGE_TIMEOUT"
        and before: "\<forall>j < k. \<not> attempt_ms (pageWorld env i j) < PAGE_TIMEOUT"
      from quiet i k have "progress (pageWorld env i k) = None" by simp
      from processPage_first_in_time [OF k win before this, of u i] obtain t where
        att: "page_attempts (processPage u i (pageWorld env i)) = k + 1"
        and p: "pushed (processPage u i (pageWorld env i)) =
              [pageInfo i (fst (pageProcessing u i (pageWorld env i k)))
                 (fst (snd (pageProcessing u i (pageWorld env i k)))) t]"
        by (elim conjE exE)
      from p nth have "pdf_pages r ! i =
          pageInfo i (fst (pageProcessing u i (pageWorld env i k)))
                 (fst (snd (pageProcessing u i (pageWorld env i k)))) t" by simp
      then show "page_attempts (processPage u i (pageWorld env i)) = k + 1
                 \<and> page_text (pdf_pages r ! i) = fst (pageProcessing u i (pageWorld env i k))
                 \<and> page_ocrUsed (pdf_pages r ! i) =
                     fst (snd (pageProcessing u i (pageWorld env i k)))"
        using att by (simp add: pageInfo_def)
    qed
    have exhausted: "(\<forall>k \<le> maxRetries. \<not> attempt_ms (pageWorld env i k) < PAGE_TIMEOUT) \<longrightarrow>
                 page_attempts (processPage u i (pageWorld env i)) = maxRetries + 1
                 \<and> page_text (pdf_pages r ! i) =
                     ''Error processing page '' @ show_nat (i + 1) @ '': Page processing timeout''
                 \<and> page_wordCount (pdf_pages r ! i) = 0"
    proof (rule impI)
      assume late: "\<forall>k \<le> maxRetries. \<not> attempt_ms (pageWorld env i k) < PAGE_TIMEOUT"
      have "pdf_pages r ! i =
          errorPageInfo i (Error ''Page processing timeout'') (3 * PAGE_TIMEOUT + 2000)"
        using nth processPage_exhausted [OF late, of u i] by simp
      then show "page_attempts (processPage u i (pageWorld env i)) = maxRetries + 1
                 \<and> page_text (pdf_pages r ! i) =
                     ''Error processing page '' @ show_nat (i + 1) @ '': Page processing timeout''
                 \<and> page_wordCount (pdf_pages r ! i) = 0"
        using processPage_exhausted [OF late, of u i] by (simp add: errorPageInfo_def)
    qed
    show ?thesis
      by (intro conjI) (rule processPage_attempts_le nth first exhausted)+
  qed
  have pdf_ok: "\<forall>n. pdfLoad env = Inr n \<longrightarrow> (\<exists>r. extractTextFromPDF env u = Inr r)"
    by (simp add: extractTextFromPDF_def Let_def)
  have any: "(\<forall>t used made.
                    slideTry u (i + 1) (slideWorld penv (slideFiles_of names ! i)) =
                      (Inr (t, used), made) \<longrightarrow>
                    (\<exists>p \<in> set (pptx_slides r'). slideNumber p = i + 1
                       \<and> slide_text p = t \<and> slide_ocrUsed p = used
                       \<and> slide_processingTime p =
                           slide_ms (slideWorld penv (slideFiles_of names ! i))))
               \<and> (\<forall>e made.
                    slideTry u (i + 1) (slideWorld penv (slideFiles_of names ! i)) =
                      (Inl e, made) \<longrightarrow>
                    (\<exists>p \<in> set (pptx_slides r'). slideNumber p = i + 1
                       \<and> slide_text p =
                           ''Error processing slide '' @ show_nat (i + 1) @ '': '' @
                           error_to_string e
                       \<and> slide_wordCount p = 0))"
    if r: "extractTextFromPPTX penv u = Inr r'" and names: "zipEntries penv = Inr names"
      and i: "i < totalSlides r'" for names i
  proof -
    have passed: "\<forall>t used made.
                    slideTry u (i + 1) (slideWorld penv (slideFiles_of names ! i)) =
                      (Inr (t, used), made) \<longrightarrow>
                    (\<exists>p \<in> set (pptx_slides r'). slideNumber p = i + 1
                       \<and> slide_text p = t \<and> slide_ocrUsed p = used
                       \<and> slide_processingTime p =
                           slide_ms (slideWorld penv (slideFiles_of names ! i)))"
    proof (intro allI impI)
      fix t used made
      assume st: "slideTry u (i + 1) (slideWorld penv (slideFiles_of names ! i)) =
              (Inr (t, used), made)"
      from processSlide_entry [OF st, of "length (slideFiles_of names)"]
      have mem: "\<lparr>slideNumber = i + 1, slide_text = t, slide_wordCount = wordCount_of t,
             slide_processingTime = slide_ms (slideWorld penv (slideFiles_of names ! i)),
             slide_ocrUsed = used\<rparr> \<in> set (pptx_slides r')"
        by (rule pptx_entry_in_result [OF r names i])
      show "\<exists>p \<in> set (pptx_slides r'). slideNumber p = i + 1
                       \<and> slide_text p = t \<and> slide_ocrUsed p = used
                       \<and> slide_processingTime p =
                           slide_ms (slideWorld penv (slideFiles_of names ! i))"
        by (rule bexI [OF _ mem]) simp
    qed
    have thrown: "\<forall>e made.
                    slideTry u (i + 1) (slideWorld penv (slideFiles_of names ! i)) =
                      (Inl e, made) \<longrightarrow>
                    (\<exists>p \<in> set (pptx_slides r'). slideNumber p = i + 1
                       \<and> slide_text p =
                           ''Error processing slide '' @ show_nat (i + 1) @ '': '' @
                           error_to_string e
                       \<and> slide_wordCount p = 0)"
    proof (intro allI impI)
      fix e made
      assume st: "slideTry u (i + 1) (slideWorld penv (slideFiles_of names ! i)) =
          (Inl e, made)"
      have mem: "\<lparr>slideNumber = i + 1,
             slide_text = ''Error processing slide '' @ show_nat (i + 1) @ '': '' @
                          error_to_string e,
             slide_wordCount = 0,
             slide_processingTime = slide_ms (slideWorld penv (slideFiles_of names ! i)),
             slide_ocrUsed = False\<rparr> \<in> set (pptx_slides r')"
        using processSlide_error [OF st, of "length (slideFiles_of names)"]
        by (intro pptx_entry_in_result [OF r names i]) simp
      show "\<exists>p \<in> set (pptx_slides r'). slideNumber p = i + 1
                       \<and> slide_text p =
                           ''Error processing slide '' @ show_nat (i + 1) @ '': '' @
                           error_to_string e
                       \<and> slide_wordCount p = 0"
        by (rule bexI [OF _ mem]) simp
    qed
    show ?thesis by (intro conjI) (rule passed thrown)+
  qed
  have each: "(\<forall>t used made.
                    slideTry u (i + 1) (slideWorld penv (slideFiles_of names ! i)) =
                      (Inr (t, used), made) \<longrightarrow>
                    slide_text (pptx_slides r' ! i) = t
                    \<and> slide_ocrUsed (pptx_slides r' ! i) = used
                    \<and> slide_processingTime (pptx_slides r' ! i) =
                        slide_ms (slideWorld penv (slideFiles_of names ! i)))
               \<and> (\<forall>e made.
                    slideTry u (i + 1) (slideWorld penv (slideFiles_of names ! i)) =
                      (Inl e, made) \<longrightarrow>
                    slide_text (pptx_slides r' ! i) =
                      ''Error processing slide '' @ show_nat (i + 1) @ '': '' @ error_to_string e
                    \<and> slide_wordCount (pptx_slides r' ! i) = 0)"
    if r: "extractTextFromPPTX penv u = Inr r'" and names: "zipEntries penv = Inr names"
      and quiet: "\<forall>name \<in> set (slideFiles_of names).
                    slide_progress (slideWorld penv name) = None"
      and i: "i < totalSlides r'" for names i
  proof -
    have nth: "slide_pushed (processSlide u i (length (slideFiles_of names))
        (slideWorld penv (slideFiles_of names ! i))) = [pptx_slides r' ! i]"
      by (rule pptx_slide_nth [OF r names quiet i])
    from pptx_slides_concat [OF r] names
    have total: "totalSlides r' = length (slideFiles_of names)" by auto
    with quiet i
    have silent: "slide_progress (slideWorld penv (slideFiles_of names ! i)) = None" by simp
    have passed: "\<forall>t used made.
                    slideTry u (i + 1) (slideWorld penv (slideFiles_of names ! i)) =
                      (Inr (t, used), made) \<longrightarrow>
                    slide_text (pptx_slides r' ! i) = t
                    \<and> slide_ocrUsed (pptx_slides r' ! i) = used
                    \<and> slide_processingTime (pptx_slides r' ! i) =
                        slide_ms (slideWorld penv (slideFiles_of names ! i))"
    proof (intro allI impI)
      fix t used made
      assume st: "slideTry u (i + 1) (slideWorld penv (slideFiles_of names ! i)) =
              (Inr (t, used), made)"
      show "slide_text (pptx_slides r' ! i) = t
                    \<and> slide_ocrUsed (pptx_slides r' ! i) = used
                    \<and> slide_processingTime (pptx_slides r' ! i) =
                        slide_ms (slideWorld penv (slideFiles_of names ! i))"
        using processSlide_ok [OF st silent, of "length (slideFiles_of names)"] nth by simp
    qed
    have thrown: "\<forall>e made.
                    slideTry u (i + 1) (slideWorld penv (slideFiles_of names ! i)) =
                      (Inl e, made) \<longrightarrow>
                    slide_text (pptx_slides r' ! i) =
                      ''Error processing slide '' @ show_nat (i + 1) @ '': '' @ error_to_string e
                    \<and> slide_wordCount (pptx_slides r' ! i) = 0"
    proof (intro allI impI)
      fix e made
      assume st: "slideTry u (i + 1) (slideWorld penv (slideFiles_of names ! i)) =
          (Inl e, made)"
      show "slide_text (pptx_slides r' ! i) =
                      ''Error processing slide '' @ show_nat (i + 1) @ '': '' @ error_to_string e
                    \<and> slide_wordCount (pptx_slides r' ! i) = 0"
        using processSlide_error [OF st, of "length (slideFiles_of names)"] nth by simp
    qed
    show ?thesis by (intro conjI) (rule passed thrown)+
  qed
  have pptx_part: "\<exists>names. zipEntries penv = Inr names
           \<and> (\<forall>i < totalSlides r'.
                 (\<forall>t used made.
                    slideTry u (i + 1) (slideWorld penv (slideFiles_of names ! i)) =
                      (Inr (t, used), made) \<longrightarrow>
                    (\<exists>p \<in> set (pptx_slides r'). slideNumber p = i + 1
                       \<and> slide_text p = t \<and> slide_ocrUsed p = used
                       \<and> slide_processingTime p =
                           slide_ms (slideWorld penv (slideFiles_of names ! i))))
               \<and> (\<forall>e made.
                    slideTry u (i + 1) (slideWorld penv (slideFiles_of names ! i)) =
                      (Inl e, made) \<longrightarrow>
                    (\<exists>p \<in> set (pptx_slides r'). slideNumber p = i + 1
                       \<and> slide_text p =
                           ''Error processing slide '' @ show_nat (i + 1) @ '': '' @
                           error_to_string e
                       \<and> slide_wordCount p = 0)))
           \<and> ((\<forall>name \<in> set (slideFiles_of names).
                  slide_progress (slideWorld penv name) = None) \<longrightarrow>
              (\<forall>i < totalSlides r'.
                 (\<forall>t used made.
                    slideTry u (i + 1) (slideWorld penv (slideFiles_of names ! i)) =
                      (Inr (t, used), made) \<longrightarrow>
                    slide_text (pptx_slides r' ! i) = t
                    \<and> slide_ocrUsed (pptx_slides r' ! i) = used
                    \<and> slide_processingTime (pptx_slides r' ! i) =
                        slide_ms (slideWorld penv (slideFiles_of names ! i)))
               \<and> (\<forall>e made.
                    slideTry u (i + 1) (slideWorld penv (slideFiles_of names ! i)) =
                      (Inl e, made) \<longrightarrow>
                    slide_text (pptx_slides r' ! i) =
                      ''Error processing slide '' @ show_nat (i + 1) @ '': '' @ error_to_string e
                    \<and> slide_wordCount (pptx_slides r' ! i) = 0)))"
    if r: "extractTextFromPPTX penv u = Inr r'"
  proof -
    from pptx_slides_concat [OF r] obtain names where names: "zipEntries penv = Inr names"
      by (elim exE conjE)
    show ?thesis
      apply (rule exI [of _ names])
      apply (intro conjI)
        apply (rule names)
       apply (intro allI impI)
       apply (erule any [OF r names])
      apply (intro allI impI)
      apply (erule (1) each [OF r names])
      done
  qed
  have pptx_ok: "\<forall>names. zipEntries penv = Inr names \<longrightarrow>
      (\<exists>r'. extractTextFromPPTX penv u = Inr r')"
    by (simp add: extractTextFromPPTX_def Let_def)
  show ?thesis
    apply (intro conjI)
         apply (rule num1)
        apply (rule num2)
       apply (rule impI)
       apply (rule conjI)
        apply (intro allI impI)
        apply (erule (1) general)
       apply (intro allI impI)
       apply (erule (2) pdf)
      apply (rule pdf_ok)
     apply (rule impI)
     apply (erule pptx_part)
    apply (rule pptx_ok)
    done
qed

theorem unit_timeout_and_retry_witness:
  "extractTextFromPDF stuck_pdf False = Inr stuck_pdf_result
   \<and> 0 < totalPages stuck_pdf_result
   \<and> progress (pageWorld stuck_pdf 0 0) = None \<and> progress (pageWorld stuck_pdf 0 1) = None
   \<and> progress (pageWorld stuck_pdf 0 2) = None
   \<and> \<not> attempt_ms (pageWorld stuck_pdf 0 0) < PAGE_TIMEOUT
   \<and> \<not> attempt_ms (pageWorld stuck_pdf 0 1) < PAGE_TIMEOUT
   \<and> \<not> attempt_ms (pageWorld stuck_pdf 0 2) < PAGE_TIMEOUT
   \<and> page_attempts (processPage False 0 (pageWorld stuck_pdf 0)) = 3
   \<and> page_text (pdf_pages stuck_pdf_result ! 0) =
       ''Error processing page 1: Page processing timeout''
   \<and> page_wordCount (pdf_pages stuck_pdf_result ! 0) = 0
   \<and> extractTextFromPDF scanned_pdf True = Inr scanned_pdf_result
   \<and> 0 < totalPages scanned_pdf_result
   \<and> progress (pageWorld scanned_pdf 0 0) = None
   \<and> attempt_ms (pageWorld scanned_pdf 0 0) < PAGE_TIMEOUT
   \<and> page_attempts (processPage True 0 (pageWorld scanned_pdf 0)) = 1
   \<and> page_text (pdf_pages scanned_pdf_result ! 0) = ''Scanned lecture notes''
   \<and> pdfLoad stuck_pdf = Inr 1
   \<and> extractTextFromPPTX (deck_of broken_slide) False = Inr broken_deck_result
   \<and> 0 < totalSlides broken_deck_result
   \<and> slide_progress (slideWorld (deck_of broken_slide) ''ppt/slides/slide1.xml'') = None
   \<and> slideTry False 1 broken_slide = (Inl (Error ''Corrupted zip''), [])
   \<and> slide_text (pptx_slides broken_deck_result ! 0) =
       ''Error processing slide 1: Error: Corrupted zip''
   \<and> slide_wordCount (pptx_slides broken_deck_result ! 0) = 0"
proof -
  have late: "\<forall>k \<le> maxRetries. \<not> attempt_ms (pageWorld stuck_pdf 0 k) < PAGE_TIMEOUT"
    by (simp add: stuck_pdf_def slow_attempt_def PAGE_TIMEOUT_def)
  have n1: "0 < totalPages stuck_pdf_result" by (simp add: stuck_pdf_result_def)
  have n2: "0 < totalPages scanned_pdf_result" by (simp add: scanned_pdf_result_def)
  have n3: "0 < totalSlides broken_deck_result" by (simp add: broken_deck_result_def)
  have quiet1: "\<forall>j < totalPages stuck_pdf_result. \<forall>k \<le> maxRetries.
                  progress (pageWorld stuck_pdf j k) = None"
    by (simp add: stuck_pdf_def slow_attempt_def)
  have quiet2: "\<forall>j < totalPages scanned_pdf_result. \<forall>k \<le> maxRetries.
                  progress (pageWorld scanned_pdf j k) = None"
    by (simp add: scanned_pdf_def scanned_attempt_def)
  have quiet3: "slide_progress (slideWorld (deck_of broken_slide) ''ppt/slides/slide1.xml'') =
      None"
    by (simp add: deck_of_def broken_slide_def)
  have silent: "progress (pageWorld stuck_pdf 0 0) = None \<and> progress (pageWorld stuck_pdf 0 1) = None
     \<and> progress (pageWorld stuck_pdf 0 2) = None \<and> progress (pageWorld scanned_pdf 0 0) = None"
    by (simp add: stuck_pdf_def slow_attempt_def scanned_pdf_def scanned_attempt_def)
  have quick: "attempt_ms (pageWorld scanned_pdf 0 0) < PAGE_TIMEOUT"
    by (simp add: scanned_pdf_def scanned_attempt_def PAGE_TIMEOUT_def)
  have load: "pdfLoad stuck_pdf = Inr 1" by (simp add: stuck_pdf_def)
  note stuck = unit_timeout_and_retry [of stuck_pdf False stuck_pdf_result
      "deck_of broken_slide" broken_deck_result, THEN conjunct2, THEN conjunct2,
      THEN conjunct1, rule_format, THEN conjunct2, rule_format]
  from stuck [OF stuck_pdf_eval quiet1 [rule_format] n1]
  have "(\<forall>k \<le> maxRetries. \<not> attempt_ms (pageWorld stuck_pdf 0 k) < PAGE_TIMEOUT) \<longrightarrow>
          page_attempts (processPage False 0 (pageWorld stuck_pdf 0)) = maxRetries + 1
          \<and> page_text (pdf_pages stuck_pdf_result ! 0) =
              ''Error processing page '' @ show_nat (0 + 1) @ '': Page processing timeout''
          \<and> page_wordCount (pdf_pages stuck_pdf_result ! 0) = 0"
    by (rule conjunct2 [THEN conjunct2, THEN conjunct2])
  with late have c1: "page_attempts (processPage False 0 (pageWorld stuck_pdf 0)) = 3
     \<and> page_text (pdf_pages stuck_pdf_result ! 0) =
         ''Error processing page 1: Page processing timeout''
     \<and> page_wordCount (pdf_pages stuck_pdf_result ! 0) = 0"
    by (simp add: show_nat_1 maxRetries_def)
  note scanned = unit_timeout_and_retry [of scanned_pdf True scanned_pdf_result
      "deck_of broken_slide" broken_deck_result, THEN conjunct2, THEN conjunct2,
      THEN conjunct1, rule_format, THEN conjunct2, rule_format]
  from scanned [OF scanned_pdf_eval quiet2 [rule_format] n2]
  have "\<forall>k \<le> maxRetries.
          attempt_ms (pageWorld scanned_pdf 0 k) < PAGE_TIMEOUT
          \<and> (\<forall>j < k. \<not> attempt_ms (pageWorld scanned_pdf 0 j) < PAGE_TIMEOUT) \<longrightarrow>
          page_attempts (processPage True 0 (pageWorld scanned_pdf 0)) = k + 1
          \<and> page_text (pdf_pages scanned_pdf_result ! 0) =
              fst (pageProcessing True 0 (pageWorld scanned_pdf 0 k))
          \<and> page_ocrUsed (pdf_pages scanned_pdf_result ! 0) =
              fst (snd (pageProcessing True 0 (pageWorld scanned_pdf 0 k)))"
    by (rule conjunct2 [THEN conjunct2, THEN conjunct1])
  from this [rule_format, of 0] quick
  have c2: "page_attempts (processPage True 0 (pageWorld scanned_pdf 0)) = 1
     \<and> page_text (pdf_pages scanned_pdf_result ! 0) = ''Scanned lecture notes''"
    by (simp add: scanned_pdf_def scanned_attempt_processing)
  have c3: "slide_text (pptx_slides broken_deck_result ! 0) =
       ''Error processing slide 1: Error: Corrupted zip''
     \<and> slide_wordCount (pptx_slides broken_deck_result ! 0) = 0"
    by (simp add: broken_deck_result_def broken_slide_info_def)
  have late3: "\<not> attempt_ms (pageWorld stuck_pdf 0 0) < PAGE_TIMEOUT
     \<and> \<not> attempt_ms (pageWorld stuck_pdf 0 1) < PAGE_TIMEOUT
     \<and> \<not> attempt_ms (pageWorld stuck_pdf 0 2) < PAGE_TIMEOUT"
    by (simp add: stuck_pdf_def slow_attempt_def PAGE_TIMEOUT_def)
  have try1: "slideTry False 1 broken_slide = (Inl (Error ''Corrupted zip''), [])"
    using broken_slide_try by simp
  show ?thesis
    using stuck_pdf_eval scanned_pdf_eval broken_deck_eval n1 n2 n3 late3 quick load c1 c2 c3
      try1 quiet3 silent
    by blast
qed

subsection \<open>C10: one result per image\<close>

text \<open>
  Claim C10 against the code. \<open>extractTextFromImages\<close> is called in \<open>auto\<close> mode with one
  image, which the remote provider reads, and with an \<open>onProgress\<close> callback that throws.
  The result of the image has been pushed when the callback is called; the \<open>catch\<close> of
  the loop then pushes a placeholder for the same image. The batch returns two entries
  for one image.
\<close>

theorem two_results_for_one_image:
  "image_progress noisy_image = Some (Error ''progress failed'')
   \<and> results (extractTextFromImages [noisy_image] ModeAuto 0 initial_service) =
       [\<lparr>ocr_text = ''Hello world'', source = Mistral, confidence = 9 / 10,
         processingTime = 100, fallbackUsed = False\<rparr>,
        \<lparr>ocr_text = ''Failed to process image 1: Error: progress failed'', source = Offline,
         confidence = 0, processingTime = 0, fallbackUsed = True\<rparr>]
   \<and> length (results (extractTextFromImages [noisy_image] ModeAuto 0 initial_service)) = 2
   \<and> length [noisy_image] = 1
   \<and> results (extractTextFromImages [quiet_image] ModeAuto 0 initial_service) =
       [\<lparr>ocr_text = ''Hello world'', source = Mistral, confidence = 9 / 10,
         processingTime = 100, fallbackUsed = False\<rparr>]"
proof -
  have thrown: "image_progress noisy_image = Some (Error ''progress failed'')"
    by (simp add: noisy_image_def)
  show ?thesis
    using thrown by (simp add: noisy_batch quiet_batch remote_result_def placeholder_result_def)
qed

end
